theory Spec2Isabelle
  imports Main "HOL-Library.Word" "HOL-Library.AList"
begin

unbundle bit_operations_syntax

section \<open>Data model\<close>

type_synonym byte = "8 word"

text \<open>
  A C string is modelled by the list of its characters; the terminating \<open>NUL\<close> is implicit:
  reading at the end of the list yields \<open>NUL\<close>. A \<open>NUL\<close> inside the list (a
  \<open>std::string\<close> may hold one) ends the C string there, as it does for \<open>c_str()\<close>.
\<close>

definition NUL :: char where
  "NUL = CHR 0x00"

definition deref :: "string \<Rightarrow> char" where
  "deref psz = (case psz of [] \<Rightarrow> NUL | c # _ \<Rightarrow> c)"

text \<open>
  Character comparisons \<open>lo <= c && c <= hi\<close>. All ranges the source tests lie within
  ASCII, so the test has the same outcome for signed and for unsigned \<open>char\<close>.
\<close>

definition char_between :: "char \<Rightarrow> char \<Rightarrow> char \<Rightarrow> bool" where
  "char_between lo c hi \<longleftrightarrow>
     (of_char lo :: nat) \<le> of_char c \<and> (of_char c :: nat) \<le> of_char hi"

text \<open>\<open>tolower\<close> of the C locale.\<close>

definition tolower_c :: "char \<Rightarrow> char" where
  "tolower_c c =
    (if char_between CHR ''A'' c CHR ''Z'' then char_of (of_char c + (32 :: nat)) else c)"

section \<open>Byte order conversions (mtbase/util.h)\<close>

text \<open>
  \<open>BSwap16\<close> takes a \<open>uint16\<close> and returns a \<open>uint32\<close>: the argument is promoted to a
  32-bit integer before the masks and shifts are applied, so the model widens it first.
\<close>

definition BSwap16 :: "16 word \<Rightarrow> 32 word" where
  "BSwap16 n = push_bit 8 (ucast n AND 0x00FF) OR drop_bit 8 (ucast n AND 0xFF00)"

definition BSwap32 :: "32 word \<Rightarrow> 32 word" where
  "BSwap32 n = push_bit 24 (n AND 0x000000FF) OR push_bit 8 (n AND 0x0000FF00)
     OR drop_bit 8 (n AND 0x00FF0000) OR drop_bit 24 (n AND 0xFF000000)"

text \<open>The three assignments of \<open>BSwap64\<close>, one \<open>let\<close> each.\<close>

definition BSwap64 :: "64 word \<Rightarrow> 64 word" where
  "BSwap64 n0 =
    (let n1 = drop_bit 8 (n0 AND 0xff00ff00ff00ff00) OR push_bit 8 (n0 AND 0x00ff00ff00ff00ff);
         n2 = drop_bit 16 (n1 AND 0xffff0000ffff0000) OR push_bit 16 (n1 AND 0x0000ffff0000ffff)
     in drop_bit 32 n2 OR push_bit 32 n2)"

text \<open>The three stages of \<open>BSwap64\<close> on their own, for the proofs.\<close>

definition swap_bytes :: "64 word \<Rightarrow> 64 word" where
  "swap_bytes n = drop_bit 8 (n AND 0xff00ff00ff00ff00) OR push_bit 8 (n AND 0x00ff00ff00ff00ff)"

definition swap_halves :: "64 word \<Rightarrow> 64 word" where
  "swap_halves n = drop_bit 16 (n AND 0xffff0000ffff0000) OR push_bit 16 (n AND 0x0000ffff0000ffff)"

definition swap_words :: "64 word \<Rightarrow> 64 word" where
  "swap_words n = drop_bit 32 n OR push_bit 32 n"

section \<open>Hex encoding and decoding (mtbase/util.h)\<close>

definition hexc :: string where
  "hexc = ''0123456789abcdef''"

text \<open>
  The inner loop of \<open>ToHexString\<close>: each byte \<open>c\<close> of a block of at most 64 bytes puts
  \<open>hexc[c >> 4]\<close> and \<open>hexc[c & 15]\<close> into the buffer \<open>hex\<close>, which is then appended.
\<close>

definition hex_chunk :: "byte list \<Rightarrow> string" where
  "hex_chunk p = concat (map (\<lambda>c. [hexc ! unat (drop_bit 4 c), hexc ! unat (c AND 15)]) p)"

text \<open>The outer loop of \<open>ToHexString\<close>: \<open>i\<close> advances by 64, \<open>p\<close> is what is left to read.\<close>

function ToHexLoop :: "byte list \<Rightarrow> string \<Rightarrow> string" where
  "ToHexLoop p strHex =
    (if p = [] then strHex else ToHexLoop (drop 64 p) (strHex @ hex_chunk (take 64 p)))"
  by pat_completeness auto
termination
  by (relation "measure (\<lambda>(p, strHex). length p)") auto

declare ToHexLoop.simps [simp del]

text \<open>
  \<open>ToHexString(const std::vector<unsigned char>&)\<close>, which calls the pointer version with
  \<open>vch.size()\<close>: a size of 0 returns the empty string before anything is read.
\<close>

definition ToHexString :: "byte list \<Rightarrow> string" where
  "ToHexString vch = (if vch = [] then [] else ToHexLoop vch ''0x'')"

definition CharToHex :: "char \<Rightarrow> int" where
  "CharToHex c =
    (if char_between CHR ''0'' c CHR ''9'' then int (of_char c) - int (of_char CHR ''0'')
     else if char_between CHR ''a'' c CHR ''f'' then int (of_char c) - int (of_char CHR ''a'') + 10
     else if char_between CHR ''A'' c CHR ''F'' then int (of_char c) - int (of_char CHR ''A'') + 10
     else - 1)"

text \<open>
  The \<open>while (*psz)\<close> loop of \<open>ParseHexString\<close>. \<open>psz\<close> is the rest of the string; both
  \<open>*psz++\<close> are reads followed by a step. The second read may hit the terminator, where
  \<open>CharToHex\<close> gives \<open>-1\<close> and the loop breaks, so nothing past the terminator is read.
\<close>

function ParseHexLoop :: "string \<Rightarrow> byte list \<Rightarrow> byte list" where
  "ParseHexLoop psz vch =
    (if deref psz = NUL then vch
     else
       let h = CharToHex (deref psz);
           l = CharToHex (deref (tl psz))
       in if h < 0 \<or> l < 0 then vch
          else ParseHexLoop (tl (tl psz)) (vch @ [word_of_int (push_bit 4 h OR l)]))"
  by pat_completeness auto
termination
  by (relation "measure (\<lambda>(psz, vch). length psz)")
     (auto simp: deref_def NUL_def split: list.splits)

declare ParseHexLoop.simps [simp del]

definition ParseHexString :: "string \<Rightarrow> byte list" where
  "ParseHexString str =
    (let psz = (if deref str = CHR ''0'' \<and> tolower_c (deref (tl str)) = CHR ''x''
                then tl (tl str) else str)
     in ParseHexLoop psz [])"

text \<open>
  What the description of the decoder says, for comparison with the loop: the hexadecimal
  digits, the optional prefix, and the bytes of a digit string taken two digits at a time.
\<close>

definition is_hex_digit :: "char \<Rightarrow> bool" where
  "is_hex_digit c \<longleftrightarrow> c \<in> set ''0123456789abcdefABCDEF''"

definition strip_0x :: "string \<Rightarrow> string" where
  "strip_0x s = (if take 2 s = ''0x'' \<or> take 2 s = ''0X'' then drop 2 s else s)"

definition hex_byte :: "char \<Rightarrow> char \<Rightarrow> byte" where
  "hex_byte h l = word_of_int (16 * CharToHex h + CharToHex l)"

fun decode_pairs :: "string \<Rightarrow> byte list" where
  "decode_pairs (h # l # ds) = hex_byte h l # decode_pairs ds"
| "decode_pairs [c] = []"
| "decode_pairs [] = []"

text \<open>
  \<open>isHexNumeric\<close> searches for the regular expression \<open>[^0-9a-fA-Fx-xX-X]+\<close>: it finds a
  match exactly when some character lies outside the bracketed class.
\<close>

definition hexnum_class :: "char \<Rightarrow> bool" where
  "hexnum_class c \<longleftrightarrow>
     char_between CHR ''0'' c CHR ''9'' \<or> char_between CHR ''a'' c CHR ''f''
     \<or> char_between CHR ''A'' c CHR ''F'' \<or> char_between CHR ''x'' c CHR ''x''
     \<or> char_between CHR ''X'' c CHR ''X''"

definition isHexNumeric :: "string \<Rightarrow> bool" where
  "isHexNumeric str = (if str = [] then False else \<not> list_ex (\<lambda>c. \<not> hexnum_class c) str)"

text \<open>
  The \<open>while (e >= 2)\<close> loop of \<open>ReverseHexNumericString\<close>, with the writes to \<open>strOut\<close>
  as list updates. \<open>e\<close> is only decreased when \<open>e - 1 >= 2\<close>, so it never wraps.
\<close>

function RevLoop :: "string \<Rightarrow> nat \<Rightarrow> nat \<Rightarrow> string \<Rightarrow> string" where
  "RevLoop strIn b e strOut =
    (if 2 \<le> e then
       (let strOut1 = strOut[b + 1 := strIn ! e]
        in if e - 1 < 2 then strOut1[b := CHR ''0'']
           else RevLoop strIn (b + 2) (e - 2) (strOut1[b := strIn ! (e - 1)]))
     else strOut)"
  by pat_completeness auto
termination
  by (relation "measure (\<lambda>(strIn, b, e, strOut). e)") auto

declare RevLoop.simps [simp del]

definition ReverseHexNumericString :: "string \<Rightarrow> string" where
  "ReverseHexNumericString strIn =
    (if \<not> isHexNumeric strIn then []
     else if \<not> (2 \<le> length strIn \<and> strIn ! 0 = CHR ''0'' \<and> tolower_c (strIn ! 1) = CHR ''x'')
     then []
     else
       let strOut = replicate (length strIn + length strIn mod 2) NUL;
           strOut = strOut[0 := CHR ''0''];
           strOut = strOut[1 := CHR ''x'']
       in RevLoop strIn 2 (length strIn - 1) strOut)"

text \<open>
  The byte reversal as it is described: the digits in groups of two, the groups in reverse
  order. \<open>swap_from_right\<close> is the same walk from the last digit, as the loop does it.
\<close>

fun pairs :: "'a list \<Rightarrow> 'a list list" where
  "pairs (a # b # r) = [a, b] # pairs r"
| "pairs _ = []"

definition reverse_bytes :: "string \<Rightarrow> string" where
  "reverse_bytes ds = concat (rev (pairs ds))"

fun swap_from_right :: "string \<Rightarrow> string" where
  "swap_from_right (a # b # r) = b # a # swap_from_right r"
| "swap_from_right [a] = [CHR ''0'', a]"
| "swap_from_right [] = []"

section \<open>Entry sequencer (blockchain/entry.cpp)\<close>

datatype EModeType = MODE_SERVER | MODE_MINER | MODE_CLIENT | MODE_OTHER

text \<open>
  The module kinds named by the \<open>switch\<close> of \<open>InitializeModules\<close>; \<open>UNKNOWN_MODULE\<close> stands
  for any other value of the enumeration, which the \<open>switch\<close> sends to its \<open>default\<close>.
\<close>

datatype EModuleType =
    LOCK | BLOCKMAKER | COREPROTOCOL | DISPATCHER | HTTPGET | HTTPSERVER | NETCHANNEL
  | BLOCKCHANNEL | CERTTXCHANNEL | USERTXCHANNEL | DELEGATEDCHANNEL | NETWORK | RPCCLIENT
  | RPCMODE | SERVICE | TXPOOL | WALLET | BLOCKCHAIN | FORKMANAGER | CONSENSUS | DATASTAT
  | RECOVERY | UNKNOWN_MODULE int

text \<open>The classes that \<open>InitializeModules\<close> instantiates with \<open>new\<close>.\<close>

datatype module_class =
    CBlockMaker | CTestNetCoreProtocol | CCoreProtocol | CDispatcher | CHttpGet | CHttpServer
  | CNetChannel | CBlockChannel | CCertTxChannel | CUserTxChannel | CDelegatedChannel
  | CNetwork | CRPCClient bool | CRPCMod | CService | CTxPool | CWallet | CDummyWallet
  | CBlockChain | CForkManager | CConsensus | CDataStat | CRecovery

datatype path_kind = Missing | RegularFile | Directory

text \<open>One value for each \<open>return false\<close> of \<open>CBbEntry::Initialize\<close>, in source order.\<close>

datatype init_exit =
    ConfigLoadFailed | HelpShown | VersionShown | Purged | LogFileSizeRange
  | LogHistorySizeRange | CreateDirFailed | NotADirectory | DiskSpaceLow | DaemonFailed
  | LogOpenFailed | DockerInitFailed | ModulesFailed

text \<open>
  What \<open>Initialize\<close> and \<open>InitializeModules\<close> read from the configuration and from the
  operating system. The fields from \<open>create_directories\<close> on stand for the results of
  calls: \<open>create_directories\<close> (asked only when the directory is missing),
  \<open>space(pathData).available\<close>, \<open>log.SetLogFilePath\<close>, \<open>InitLog\<close>, \<open>TryLockFile\<close> and
  the table \<open>CMode::GetModules\<close>, whose code is elsewhere; \<open>RunInBackground\<close>, which forks
  the process, as seen by the child; and \<open>GetRPCHostConfig\<close>, which reads configuration
  types declared elsewhere (\<open>None\<close> when it returns false).
\<close>

record 'h config_env =
  config_loaded :: bool
  fHelp :: bool
  fVersion :: bool
  fPurge :: bool
  fDebug :: bool
  fDaemon :: bool
  fTestNet :: bool
  fWallet :: bool
  nLogFileSize :: int
  nLogHistorySize :: int
  pathData :: string
  mode_type :: EModeType
  vecCommand_empty :: bool
  create_directories :: bool
  space_available :: nat
  RunInBackground :: bool
  SetLogFilePath :: bool
  InitLog :: bool
  TryLockFile :: "string \<Rightarrow> bool"
  GetModules :: "EModeType \<Rightarrow> EModuleType list"
  GetRPCHostConfig :: "'h list option"

text \<open>
  The operations of the module container that the entry calls. The class of \<open>docker\<close> is
  defined elsewhere, so its operations are parameters, each taking and returning the
  container's state \<open>'d\<close>.
\<close>

record ('d, 'h) docker_ops =
  docker_Initialize :: "'d \<Rightarrow> bool \<times> 'd"
  docker_Attach :: "'d \<Rightarrow> module_class \<Rightarrow> bool \<times> 'd"
  docker_GetObject :: "'d \<Rightarrow> string \<Rightarrow> module_class option"
  AddNewHost :: "'d \<Rightarrow> 'h \<Rightarrow> 'd"

text \<open>
  The state the entry works on: the container, the data directory on disk, the instances
  made with \<open>new\<close> and those destroyed with \<open>delete\<close> (both in order), and the lines
  written to \<open>cerr\<close>.
\<close>

record 'd entry_state =
  docker :: 'd
  data_dir :: path_kind
  created :: "module_class list"
  deleted :: "module_class list"
  cerr :: "string list"

definition MINIMUM_HARD_DISK_AVAILABLE :: nat where
  "MINIMUM_HARD_DISK_AVAILABLE = 104857600"

text \<open>\<open>operator/\<close> of \<open>boost::filesystem::path\<close>, followed by \<open>string()\<close>.\<close>

definition path_join :: "string \<Rightarrow> string \<Rightarrow> string" where
  "path_join p q = (if p = [] \<or> last p = CHR ''/'' then p @ q else p @ CHR ''/'' # q)"

text \<open>
  \<open>CBbEntry::AttachModule\<close>. The pointer is \<open>None\<close> when it is null; \<open>delete\<close> of a null
  pointer does nothing.
\<close>

definition AttachModule ::
  "('d, 'h) docker_ops \<Rightarrow> module_class option \<Rightarrow> 'd entry_state \<Rightarrow> bool \<times> 'd entry_state" where
  "AttachModule ops pBase st =
    (case pBase of
       None \<Rightarrow> (False, st)
     | Some m \<Rightarrow>
         (let (ok, d) = docker_Attach ops (docker st) m
          in if \<not> ok then (False, st\<lparr>docker := d, deleted := deleted st @ [m]\<rparr>)
             else (True, st\<lparr>docker := d\<rparr>)))"

definition new_module ::
  "module_class \<Rightarrow> 'd entry_state \<Rightarrow> module_class option \<times> 'd entry_state" where
  "new_module c st = (Some c, st\<lparr>created := created st @ [c]\<rparr>)"

text \<open>\<open>AttachModule(new C())\<close>.\<close>

definition attach_new ::
  "('d, 'h) docker_ops \<Rightarrow> module_class \<Rightarrow> 'd entry_state \<Rightarrow> bool \<times> 'd entry_state" where
  "attach_new ops c st = (let (p, st1) = new_module c st in AttachModule ops p st1)"

text \<open>
  One round of the \<open>for\<close> loop of \<open>InitializeModules\<close>: the \<open>switch\<close> on the module kind.
  The result is \<open>False\<close> where the source says \<open>return false\<close> and \<open>True\<close> where it says
  \<open>break\<close>.
\<close>

fun InitializeModules_case ::
  "('d, 'h) docker_ops \<Rightarrow> 'h config_env \<Rightarrow> EModuleType \<Rightarrow> 'd entry_state
     \<Rightarrow> bool \<times> 'd entry_state" where
  "InitializeModules_case ops env LOCK st =
    (if \<not> TryLockFile env (path_join (pathData env) ''.lock'')
     then (False, st\<lparr>cerr := cerr st @ [''Cannot obtain a lock on data directory'']\<rparr>)
     else (True, st))"
| "InitializeModules_case ops env BLOCKMAKER st = attach_new ops CBlockMaker st"
| "InitializeModules_case ops env COREPROTOCOL st =
    attach_new ops (if fTestNet env then CTestNetCoreProtocol else CCoreProtocol) st"
| "InitializeModules_case ops env DISPATCHER st = attach_new ops CDispatcher st"
| "InitializeModules_case ops env HTTPGET st = attach_new ops CHttpGet st"
| "InitializeModules_case ops env HTTPSERVER st = attach_new ops CHttpServer st"
| "InitializeModules_case ops env NETCHANNEL st = attach_new ops CNetChannel st"
| "InitializeModules_case ops env BLOCKCHANNEL st = attach_new ops CBlockChannel st"
| "InitializeModules_case ops env CERTTXCHANNEL st = attach_new ops CCertTxChannel st"
| "InitializeModules_case ops env USERTXCHANNEL st = attach_new ops CUserTxChannel st"
| "InitializeModules_case ops env DELEGATEDCHANNEL st = attach_new ops CDelegatedChannel st"
| "InitializeModules_case ops env NETWORK st = attach_new ops CNetwork st"
| "InitializeModules_case ops env RPCCLIENT st =
    attach_new ops (CRPCClient (vecCommand_empty env)) st"
| "InitializeModules_case ops env RPCMODE st =
    (case docker_GetObject ops (docker st) ''httpserver'' of
       None \<Rightarrow> (False, st)
     | Some pBase \<Rightarrow>
         (case GetRPCHostConfig env of
            None \<Rightarrow> (False, st)
          | Some vHostCfg \<Rightarrow>
              attach_new ops CRPCMod
                (st\<lparr>docker := foldl (AddNewHost ops) (docker st) vHostCfg\<rparr>)))"
| "InitializeModules_case ops env SERVICE st = attach_new ops CService st"
| "InitializeModules_case ops env TXPOOL st = attach_new ops CTxPool st"
| "InitializeModules_case ops env WALLET st =
    attach_new ops (if fWallet env then CWallet else CDummyWallet) st"
| "InitializeModules_case ops env BLOCKCHAIN st = attach_new ops CBlockChain st"
| "InitializeModules_case ops env FORKMANAGER st = attach_new ops CForkManager st"
| "InitializeModules_case ops env CONSENSUS st = attach_new ops CConsensus st"
| "InitializeModules_case ops env DATASTAT st = attach_new ops CDataStat st"
| "InitializeModules_case ops env RECOVERY st = attach_new ops CRecovery st"
| "InitializeModules_case ops env (UNKNOWN_MODULE n) st =
    (True, st\<lparr>cerr := cerr st @ [''Unknown module'']\<rparr>)"

fun InitializeModules_loop ::
  "('d, 'h) docker_ops \<Rightarrow> 'h config_env \<Rightarrow> EModuleType list \<Rightarrow> 'd entry_state
     \<Rightarrow> bool \<times> 'd entry_state" where
  "InitializeModules_loop ops env [] st = (True, st)"
| "InitializeModules_loop ops env (m # ms) st =
    (case InitializeModules_case ops env m st of
       (False, st1) \<Rightarrow> (False, st1)
     | (True, st1) \<Rightarrow> InitializeModules_loop ops env ms st1)"

definition InitializeModules ::
  "('d, 'h) docker_ops \<Rightarrow> 'h config_env \<Rightarrow> EModeType \<Rightarrow> 'd entry_state
     \<Rightarrow> bool \<times> 'd entry_state" where
  "InitializeModules ops env mode st = InitializeModules_loop ops env (GetModules env mode) st"

text \<open>
  \<open>CBbEntry::Initialize\<close>. The result is \<open>None\<close> where the source returns true and names
  the \<open>return false\<close> that was taken otherwise. \<open>PurgeStorage\<close> and \<open>ListConfig\<close> work on
  storage and on \<open>cout\<close>, which are not part of \<open>entry_state\<close>; the assignments to the
  global network flags are left out for the same reason.
\<close>

definition Initialize ::
  "('d, 'h) docker_ops \<Rightarrow> 'h config_env \<Rightarrow> 'd entry_state
     \<Rightarrow> init_exit option \<times> 'd entry_state" where
  "Initialize ops env st =
    (if \<not> config_loaded env then
       (Some ConfigLoadFailed,
        st\<lparr>cerr := cerr st @ [''Failed to load/parse arguments and config file'']\<rparr>)
     else if fHelp env then (Some HelpShown, st)
     else if fVersion env then (Some VersionShown, st)
     else if fPurge env then (Some Purged, st)
     else if nLogFileSize env < 1 \<or> nLogFileSize env > 2048 then
       (Some LogFileSizeRange,
        st\<lparr>cerr := cerr st @ [''Log file size beyond range(range: 1 ~ 2048)'']\<rparr>)
     else if nLogHistorySize env < 2 \<or> nLogHistorySize env > 0x7FFFFFFF then
       (Some LogHistorySizeRange,
        st\<lparr>cerr := cerr st @ [''Log history size beyond range(range: 2 ~ 2147483647)'']\<rparr>)
     else if data_dir st = Missing \<and> \<not> create_directories env then
       (Some CreateDirFailed, st\<lparr>cerr := cerr st @ [''Failed create directory'']\<rparr>)
     else
       let st1 = (if data_dir st = Missing then st\<lparr>data_dir := Directory\<rparr> else st)
       in if data_dir st1 \<noteq> Directory then
            (Some NotADirectory,
             st1\<lparr>cerr := cerr st1 @ [''Failed to access data directory'']\<rparr>)
          else if space_available env < MINIMUM_HARD_DISK_AVAILABLE then
            (Some DiskSpaceLow,
             st1\<lparr>cerr := cerr st1 @ [''Warning: hard disk available < 100M'']\<rparr>)
          else if fDaemon env \<and> (mode_type env = MODE_SERVER \<or> mode_type env = MODE_MINER)
                  \<and> \<not> RunInBackground env then
            (Some DaemonFailed, st1)
          else if (mode_type env = MODE_SERVER \<or> mode_type env = MODE_MINER)
                  \<and> SetLogFilePath env \<and> \<not> InitLog env then
            (Some LogOpenFailed, st1\<lparr>cerr := cerr st1 @ [''Failed to open log file'']\<rparr>)
          else
            let (ok, d) = docker_Initialize ops (docker st1);
                st2 = st1\<lparr>docker := d\<rparr>
            in if \<not> ok then
                 (Some DockerInitFailed,
                  st2\<lparr>cerr := cerr st2 @ [''Failed to initialize docker'']\<rparr>)
               else
                 let (ok, st3) = InitializeModules ops env (mode_type env) st2
                 in (if ok then None else Some ModulesFailed, st3))"



subsection \<open>The module container\<close>

text \<open>
  Modelled from the spec: \<open>Attach\<close> of the module container, whose class is not among the
  sources. The container keeps \<open>by_name\<close>, a mapping from module name to instance in
  attachment order; \<open>Attach\<close> rejects a name that is already there and returns false.
  \<open>name\<close> is the name each module declares for itself.
\<close>

definition spec_Attach ::
  "(module_class \<Rightarrow> string) \<Rightarrow> (string \<times> module_class) list \<Rightarrow> module_class
     \<Rightarrow> bool \<times> (string \<times> module_class) list" where
  "spec_Attach name by_name m =
    (if name m \<in> set (map fst by_name) then (False, by_name)
     else (True, by_name @ [(name m, m)]))"

text \<open>
  Modelled from the spec: \<open>GetObject\<close> of the module container, the lookup by exact name
  of the instance registered under it.
\<close>

definition spec_GetObject ::
  "(string \<times> module_class) list \<Rightarrow> string \<Rightarrow> module_class option" where
  "spec_GetObject by_name n = map_of by_name n"

subsection \<open>A small configuration\<close>

definition example_name :: "module_class \<Rightarrow> string" where
  "example_name c =
    (case c of CHttpServer \<Rightarrow> ''httpserver'' | CService \<Rightarrow> ''service'' | _ \<Rightarrow> ''module'')"

definition example_docker :: "((string \<times> module_class) list, nat) docker_ops" where
  "example_docker =
    \<lparr>docker_Initialize = (\<lambda>d. (True, d)), docker_Attach = spec_Attach example_name,
     docker_GetObject = spec_GetObject, AddNewHost = (\<lambda>d h. d)\<rparr>"

definition example_env :: "nat config_env" where
  "example_env =
    \<lparr>config_loaded = True, fHelp = False, fVersion = False, fPurge = False, fDebug = False,
     fDaemon = False, fTestNet = False, fWallet = True, nLogFileSize = 200,
     nLogHistorySize = 2048, pathData = ''/data'', mode_type = MODE_SERVER,
     vecCommand_empty = True, create_directories = True, space_available = 1000000000,
     RunInBackground = True, SetLogFilePath = True, InitLog = True,
     TryLockFile = (\<lambda>p. False), GetModules = (\<lambda>m. [HTTPSERVER, LOCK, SERVICE]),
     GetRPCHostConfig = Some []\<rparr>"

definition example_state :: "(string \<times> module_class) list entry_state" where
  "example_state = \<lparr>docker = [], data_dir = Directory, created = [], deleted = [], cerr = []\<rparr>"

section \<open>Time series database (CTSDB)\<close>

datatype chunk_error = RecordTooLarge

datatype ctsdb_error = NotOpen | FlushFailed int chunk_error

type_synonym ('k, 'r) entries = "('k \<times> 'r) list"

text \<open>
  Modelled from the spec: the state of a \<open>CCTSDB\<close>, whose class is not among the sources
  (only its test is). The write buffer maps a bucket to the updates made in it, in the
  order they were made; the chunks map a bucket to the entries of its chunk on disk.
  \<open>is_open\<close> is the state \<open>Open\<close>, \<open>bucket_width\<close> the width \<open>B\<close> in seconds.
\<close>

record ('k, 'r) ctsdb =
  is_open :: bool
  bucket_width :: int
  buffer :: "(int \<times> ('k, 'r) entries) list"
  chunks :: "(int \<times> ('k, 'r) entries) list"

text \<open>
  Modelled from the spec: the bucket of a timestamp \<open>t\<close> is the floor of \<open>t / B\<close>.
\<close>

definition bucket_of :: "('k, 'r) ctsdb \<Rightarrow> int \<Rightarrow> int" where
  "bucket_of s t = t div bucket_width s"

text \<open>
  Modelled from the spec: the entries held for a bucket, none when the bucket is absent.
\<close>

definition entries_of :: "(int \<times> ('k, 'r) entries) list \<Rightarrow> int \<Rightarrow> ('k, 'r) entries" where
  "entries_of al b = (case map_of al b of None \<Rightarrow> [] | Some es \<Rightarrow> es)"

text \<open>
  Modelled from the spec: the writer of the chunk store sorts the entries and removes
  duplicate keys, keeping the last occurrence.
\<close>

definition dedup_sorted :: "('k::linorder, 'r) entries \<Rightarrow> ('k, 'r) entries" where
  "dedup_sorted es = map (\<lambda>k. (k, the (map_of (rev es) k))) (sort (remdups (map fst es)))"

text \<open>
  Modelled from the spec: \<open>write_chunk\<close> of the chunk store. A record larger than
  \<open>2^32 - 1\<close> bytes fails with \<open>RecordTooLarge\<close>; \<open>sz\<close> is the length of a record's
  serialization. Failures of the file system are outside the model.
\<close>

definition write_chunk ::
  "('r \<Rightarrow> nat) \<Rightarrow> ('k::linorder, 'r) entries \<Rightarrow> chunk_error + ('k, 'r) entries" where
  "write_chunk sz es =
    (let c = dedup_sorted es
     in if list_ex (\<lambda>(k, r). 4294967295 < sz r) c then Inl RecordTooLarge else Inr c)"

text \<open>
  Modelled from the spec: \<open>read_record\<close> of the chunk store, the search for a key in the
  directory of a bucket's chunk.
\<close>

definition read_record :: "(int \<times> ('k, 'r) entries) list \<Rightarrow> int \<Rightarrow> 'k \<Rightarrow> 'r option" where
  "read_record cs b k = (case map_of cs b of None \<Rightarrow> None | Some es \<Rightarrow> map_of es k)"

text \<open>
  Modelled from the spec: \<open>Update(t, k, r)\<close> buffers the write under the bucket of \<open>t\<close>;
  it fails with \<open>NotOpen\<close> on a database that is not open.
\<close>

definition Update ::
  "int \<Rightarrow> 'k \<Rightarrow> 'r \<Rightarrow> ('k, 'r) ctsdb \<Rightarrow> ctsdb_error + ('k, 'r) ctsdb" where
  "Update t k r s =
    (if \<not> is_open s then Inl NotOpen
     else let b = bucket_of s t
          in Inr (s\<lparr>buffer := AList.update b (entries_of (buffer s) b @ [(k, r)]) (buffer s)\<rparr>))"

text \<open>
  Modelled from the spec: \<open>Retrieve(t, k)\<close> first consults the buffer for the bucket of
  \<open>t\<close>, where the last write for a key wins, else the chunk for that bucket. \<open>Inr None\<close>
  is the result false, \<open>Inr (Some r)\<close> the result true with the record \<open>r\<close>.
\<close>

definition Retrieve :: "int \<Rightarrow> 'k \<Rightarrow> ('k, 'r) ctsdb \<Rightarrow> ctsdb_error + 'r option" where
  "Retrieve t k s =
    (if \<not> is_open s then Inl NotOpen
     else let b = bucket_of s t
          in case map_of (rev (entries_of (buffer s) b)) k of
               Some r \<Rightarrow> Inr (Some r)
             | None \<Rightarrow> Inr (read_record (chunks s) b k))"

text \<open>
  Modelled from the spec: the loop of \<open>Flush\<close> over the buffered buckets. For each bucket
  it loads the existing chunk entries, applies the buffered writes after them, writes the
  new chunk and clears the bucket from the buffer. A failure on a bucket leaves the
  earlier buckets flushed, this and the later ones buffered, and is reported as
  \<open>FlushFailed\<close> for that bucket.
\<close>

fun flush_buckets ::
  "('r \<Rightarrow> nat) \<Rightarrow> int list \<Rightarrow> ('k::linorder, 'r) ctsdb
     \<Rightarrow> ctsdb_error option \<times> ('k, 'r) ctsdb" where
  "flush_buckets sz [] s = (None, s)"
| "flush_buckets sz (b # bs) s =
    (case write_chunk sz (entries_of (chunks s) b @ entries_of (buffer s) b) of
       Inl cause \<Rightarrow> (Some (FlushFailed b cause), s)
     | Inr c \<Rightarrow> flush_buckets sz bs
         (s\<lparr>chunks := AList.update b c (chunks s), buffer := AList.delete b (buffer s)\<rparr>))"

text \<open>
  Modelled from the spec: \<open>Flush\<close> takes the buckets of the buffer in ascending order;
  it fails with \<open>NotOpen\<close> on a database that is not open. \<open>None\<close> is success.
\<close>

definition Flush ::
  "('r \<Rightarrow> nat) \<Rightarrow> ('k::linorder, 'r) ctsdb \<Rightarrow> ctsdb_error option \<times> ('k, 'r) ctsdb" where
  "Flush sz s =
    (if \<not> is_open s then (Some NotOpen, s)
     else flush_buckets sz (sort (remdups (map fst (buffer s)))) s)"

text \<open>Sequences of operations on an open database, to state what happens between two calls.\<close>

datatype ('k, 'r) db_op = OpUpdate int 'k 'r | OpFlush | OpRetrieve int 'k

fun apply_op ::
  "('r \<Rightarrow> nat) \<Rightarrow> ('k::linorder, 'r) ctsdb \<Rightarrow> ('k, 'r) db_op \<Rightarrow> ('k, 'r) ctsdb" where
  "apply_op sz s (OpUpdate t k r) = (case Update t k r s of Inl e \<Rightarrow> s | Inr s' \<Rightarrow> s')"
| "apply_op sz s OpFlush = snd (Flush sz s)"
| "apply_op sz s (OpRetrieve t k) = s"

definition run_ops ::
  "('r \<Rightarrow> nat) \<Rightarrow> ('k, 'r) db_op list \<Rightarrow> ('k::linorder, 'r) ctsdb \<Rightarrow> ('k, 'r) ctsdb" where
  "run_ops sz ops s = foldl (apply_op sz) s ops"

text \<open>An operation that writes the key \<open>k\<close> in the bucket of \<open>t\<close> again.\<close>

fun overwrites :: "('k, 'r) ctsdb \<Rightarrow> int \<Rightarrow> 'k \<Rightarrow> ('k, 'r) db_op \<Rightarrow> bool" where
  "overwrites s t k (OpUpdate t' k' r') \<longleftrightarrow> bucket_of s t' = bucket_of s t \<and> k' = k"
| "overwrites s t k _ \<longleftrightarrow> False"

text \<open>
  The database answers \<open>r\<close> for the key \<open>k\<close> of bucket \<open>b\<close>: from the buffer, or from a
  chunk with unique keys when the buffer has nothing for \<open>k\<close>.
\<close>

definition holds_record :: "('k, 'r) ctsdb \<Rightarrow> int \<Rightarrow> 'k \<Rightarrow> 'r \<Rightarrow> bool" where
  "holds_record s b k r \<longleftrightarrow>
     map_of (rev (entries_of (buffer s) b)) k = Some r
     \<or> (map_of (rev (entries_of (buffer s) b)) k = None
        \<and> map_of (entries_of (chunks s) b) k = Some r
        \<and> distinct (map fst (entries_of (chunks s) b)))"

definition example_db :: "(nat, nat) ctsdb" where
  "example_db = \<lparr>is_open = True, bucket_width = 3600, buffer = [], chunks = []\<rparr>"

definition example_buffered :: "(nat, nat) ctsdb" where
  "example_buffered =
    \<lparr>is_open = True, bucket_width = 3600, buffer = [(0, [(5, 1)]), (1, [(5, 7)])], chunks = []\<rparr>"

definition example_size :: "nat \<Rightarrow> nat" where
  "example_size r = 16"

definition example_ops :: "(nat, nat) db_op list" where
  "example_ops = [OpUpdate 100 6 2, OpFlush, OpUpdate 4000 5 3, OpRetrieve 100 5, OpFlush]"

section \<open>Byte swaps are involutions\<close>

lemma mask32_byte0: "(0xFF :: 32 word) = mask 8"
  by (simp add: mask_eq_exp_minus_1)

lemma mask32_byte1: "(0xFF00 :: 32 word) = push_bit 8 (mask 8)"
  by (simp add: mask_eq_exp_minus_1 push_bit_eq_mult)

lemma mask32_byte2: "(0xFF0000 :: 32 word) = push_bit 16 (mask 8)"
  by (simp add: mask_eq_exp_minus_1 push_bit_eq_mult)

lemma mask32_byte3: "(0xFF000000 :: 32 word) = push_bit 24 (mask 8)"
  by (simp add: mask_eq_exp_minus_1 push_bit_eq_mult)

lemma bit_BSwap16:
  "bit (BSwap16 n) i \<longleftrightarrow> i < 16 \<and> (if i < 8 then bit n (i + 8) else bit n (i - 8))"
  unfolding BSwap16_def mask32_byte0 mask32_byte1
  by (auto simp: bit_simps add.commute dest: bit_imp_le_length)

lemma bit_BSwap32:
  "bit (BSwap32 n) i \<longleftrightarrow> i < 32 \<and>
     (if i < 8 then bit n (i + 24) else if i < 16 then bit n (i + 8)
      else if i < 24 then bit n (i - 8) else bit n (i - 24))"
  unfolding BSwap32_def mask32_byte0 mask32_byte1 mask32_byte2 mask32_byte3
  by (auto simp: bit_simps add.commute dest: bit_imp_le_length)

lemma mask64_even_bytes:
  "(0x00ff00ff00ff00ff :: 64 word) =
     mask 8 OR push_bit 16 (mask 8) OR push_bit 32 (mask 8) OR push_bit 48 (mask 8)"
  by (simp add: mask_eq_exp_minus_1 push_bit_eq_mult)

lemma mask64_odd_bytes:
  "(0xff00ff00ff00ff00 :: 64 word) =
     push_bit 8 (mask 8) OR push_bit 24 (mask 8) OR push_bit 40 (mask 8) OR push_bit 56 (mask 8)"
  by (simp add: mask_eq_exp_minus_1 push_bit_eq_mult)

lemma mask64_even_halves: "(0x0000ffff0000ffff :: 64 word) = mask 16 OR push_bit 32 (mask 16)"
  by (simp add: mask_eq_exp_minus_1 push_bit_eq_mult)

lemma mask64_odd_halves:
  "(0xffff0000ffff0000 :: 64 word) = push_bit 16 (mask 16) OR push_bit 48 (mask 16)"
  by (simp add: mask_eq_exp_minus_1 push_bit_eq_mult)

lemma bit_swap_words:
  "bit (swap_words n) i \<longleftrightarrow> i < 64 \<and> (if i < 32 then bit n (i + 32) else bit n (i - 32))"
  unfolding swap_words_def
  by (auto simp: bit_simps add.commute dest: bit_imp_le_length)

lemma bit_swap_halves:
  "bit (swap_halves n) i \<longleftrightarrow> i < 64 \<and>
     bit n (if i < 16 then i + 16 else if i < 32 then i - 16
            else if i < 48 then i + 16 else i - 16)"
  unfolding swap_halves_def mask64_even_halves mask64_odd_halves
  by (auto simp: bit_simps add.commute dest: bit_imp_le_length)

lemma bit_swap_bytes:
  "bit (swap_bytes n) i \<longleftrightarrow> i < 64 \<and>
     bit n (if i < 8 then i + 8 else if i < 16 then i - 8
            else if i < 24 then i + 8 else if i < 32 then i - 8
            else if i < 40 then i + 8 else if i < 48 then i - 8
            else if i < 56 then i + 8 else i - 8)"
  unfolding swap_bytes_def mask64_even_bytes mask64_odd_bytes
  by (auto simp: bit_simps add.commute dest: bit_imp_le_length)

lemma BSwap64_stages: "BSwap64 n = swap_words (swap_halves (swap_bytes n))"
  by (simp only: BSwap64_def swap_words_def swap_halves_def swap_bytes_def Let_def)

lemma swap_bytes_twice: "swap_bytes (swap_bytes n) = n"
  by (rule bit_eqI) (auto simp: bit_swap_bytes dest: bit_imp_le_length)

lemma swap_halves_twice: "swap_halves (swap_halves n) = n"
  by (rule bit_eqI) (auto simp: bit_swap_halves dest: bit_imp_le_length)

lemma swap_words_twice: "swap_words (swap_words n) = n"
  by (rule bit_eqI) (auto simp: bit_swap_words dest: bit_imp_le_length)

lemma swap_words_halves: "swap_words (swap_halves n) = swap_halves (swap_words n)"
  by (rule bit_eqI) (auto simp: bit_swap_words bit_swap_halves dest: bit_imp_le_length)

lemma swap_words_bytes: "swap_words (swap_bytes n) = swap_bytes (swap_words n)"
  by (rule bit_eqI) (auto simp: bit_swap_words bit_swap_bytes dest: bit_imp_le_length)

lemma swap_halves_bytes: "swap_halves (swap_bytes n) = swap_bytes (swap_halves n)"
  by (rule bit_eqI) (auto simp: bit_swap_halves bit_swap_bytes dest: bit_imp_le_length)

lemma BSwap16_twice: "BSwap16 (ucast (BSwap16 n)) = ucast n"
  by (rule bit_eqI) (auto simp: bit_BSwap16 bit_simps dest: bit_imp_le_length)

lemma BSwap32_twice: "BSwap32 (BSwap32 n) = n"
  by (rule bit_eqI) (auto simp: bit_BSwap32 dest: bit_imp_le_length)

lemma BSwap64_twice: "BSwap64 (BSwap64 n) = n"
  by (simp add: BSwap64_stages swap_words_halves swap_words_bytes swap_halves_bytes
      swap_bytes_twice swap_halves_twice swap_words_twice)

text \<open>
  Claim C9. Each byte swap is an involution. \<open>BSwap16\<close> returns a 32-bit value, so its
  result is truncated to 16 bits (\<open>ucast\<close>) before it is swapped again: the second swap
  then gives back \<open>n\<close>, both as the 32-bit value returned and after truncation to 16 bits.
  \<open>BSwap32\<close> and \<open>BSwap64\<close> applied twice give back their argument.
\<close>

theorem BSwap_involution:
  "BSwap16 (ucast (BSwap16 n16)) = ucast n16
   \<and> ucast (BSwap16 (ucast (BSwap16 n16))) = n16
   \<and> BSwap32 (BSwap32 n32) = n32
   \<and> BSwap64 (BSwap64 n64) = n64"
proof -
  have "ucast (BSwap16 (ucast (BSwap16 n16))) = (ucast (ucast n16 :: 32 word) :: 16 word)"
    by (simp only: BSwap16_twice)
  also have "\<dots> = n16"
    by (rule bit_eqI) (auto simp: bit_simps dest: bit_imp_le_length)
  finally show ?thesis
    by (simp add: BSwap16_twice BSwap32_twice BSwap64_twice)
qed

section \<open>Hexadecimal digits\<close>

lemma char_in_range:
  fixes c :: char
  assumes "(lo :: nat) \<le> of_char c" "of_char c \<le> (hi :: nat)"
  shows "c \<in> char_of ` {lo..hi}"
proof -
  have "c = char_of (of_char c :: nat)" by simp
  with assms show ?thesis by (metis atLeastAtMost_iff imageI)
qed

lemma digit_range: "char_between CHR ''0'' c CHR ''9'' \<Longrightarrow> is_hex_digit c"
proof -
  assume "char_between CHR ''0'' c CHR ''9''"
  then have "c \<in> char_of ` {48..57::nat}"
    by (intro char_in_range) (auto simp: char_between_def)
  also have "{48..57::nat} = {48, 49, 50, 51, 52, 53, 54, 55, 56, 57}"
    by (rule set_eqI) (simp, arith)
  finally show ?thesis by (auto simp: is_hex_digit_def char_of_eq_iff)
qed

lemma lower_range: "char_between CHR ''a'' c CHR ''f'' \<Longrightarrow> is_hex_digit c"
proof -
  assume "char_between CHR ''a'' c CHR ''f''"
  then have "c \<in> char_of ` {97..102::nat}"
    by (intro char_in_range) (auto simp: char_between_def)
  also have "{97..102::nat} = {97, 98, 99, 100, 101, 102}"
    by (rule set_eqI) (simp, arith)
  finally show ?thesis by (auto simp: is_hex_digit_def char_of_eq_iff)
qed

lemma upper_range: "char_between CHR ''A'' c CHR ''F'' \<Longrightarrow> is_hex_digit c"
proof -
  assume "char_between CHR ''A'' c CHR ''F''"
  then have "c \<in> char_of ` {65..70::nat}"
    by (intro char_in_range) (auto simp: char_between_def)
  also have "{65..70::nat} = {65, 66, 67, 68, 69, 70}"
    by (rule set_eqI) (simp, arith)
  finally show ?thesis by (auto simp: is_hex_digit_def char_of_eq_iff)
qed

lemma is_hex_digit_ranges:
  "is_hex_digit c \<longleftrightarrow>
     char_between CHR ''0'' c CHR ''9'' \<or> char_between CHR ''a'' c CHR ''f''
     \<or> char_between CHR ''A'' c CHR ''F''"
proof
  assume "is_hex_digit c"
  then show "char_between CHR ''0'' c CHR ''9'' \<or> char_between CHR ''a'' c CHR ''f''
     \<or> char_between CHR ''A'' c CHR ''F''"
    by (auto simp: is_hex_digit_def char_between_def)
next
  assume "char_between CHR ''0'' c CHR ''9'' \<or> char_between CHR ''a'' c CHR ''f''
     \<or> char_between CHR ''A'' c CHR ''F''"
  then show "is_hex_digit c"
    using digit_range lower_range upper_range by blast
qed

lemma CharToHex_neg: "CharToHex c < 0 \<longleftrightarrow> \<not> is_hex_digit c"
  by (auto simp: is_hex_digit_ranges CharToHex_def char_between_def)

lemma CharToHex_range: "is_hex_digit c \<Longrightarrow> 0 \<le> CharToHex c \<and> CharToHex c < 16"
  by (auto simp: is_hex_digit_ranges CharToHex_def char_between_def)

lemma NUL_not_hex: "\<not> is_hex_digit NUL"
  by (simp add: is_hex_digit_def NUL_def)

lemma char_between_same: "char_between a c a \<longleftrightarrow> c = a"
proof -
  have "char_between a c a \<longleftrightarrow> (of_char c :: nat) = of_char a"
    by (auto simp: char_between_def)
  then show ?thesis by (simp only: of_char_eq_iff)
qed

lemma hexnum_class_iff:
  "hexnum_class c \<longleftrightarrow> is_hex_digit c \<or> c = CHR ''x'' \<or> c = CHR ''X''"
  by (simp only: hexnum_class_def is_hex_digit_ranges char_between_same disj_assoc)

lemma tolower_c_x: "tolower_c c = CHR ''x'' \<longleftrightarrow> c = CHR ''x'' \<or> c = CHR ''X''"
proof (cases "char_between CHR ''A'' c CHR ''Z''")
  case True
  then have b: "(of_char c :: nat) + 32 < 256" by (simp add: char_between_def)
  have "char_of (of_char c + (32::nat)) = CHR ''x'' \<longleftrightarrow> (of_char c :: nat) + 32 = 120"
    using b by (simp add: char_of_eq_iff take_bit_nat_eq_self)
  also have "\<dots> \<longleftrightarrow> (of_char c :: nat) = of_char CHR ''X''" by auto
  also have "\<dots> \<longleftrightarrow> c = CHR ''X''" by (simp only: of_char_eq_iff)
  finally show ?thesis using True by (auto simp: tolower_c_def char_between_def)
next
  case False
  then show ?thesis by (auto simp: tolower_c_def char_between_def)
qed

section \<open>Decoding hex strings\<close>

lemma nibbles_or_add:
  fixes h l :: int
  assumes "0 \<le> l" "l < 16"
  shows "push_bit 4 h OR l = 16 * h + l"
proof -
  have "take_bit 4 l = l" using assms by (simp add: take_bit_int_eq_self)
  then have "push_bit 4 h OR l = concat_bit 4 l h" by (simp add: concat_bit_def or.commute)
  also have "\<dots> = take_bit 4 l + push_bit 4 h" by (rule concat_bit_eq)
  finally show ?thesis using \<open>take_bit 4 l = l\<close> by (simp add: push_bit_eq_mult)
qed

lemma ParseHexLoop_Nil: "ParseHexLoop [] vch = vch"
  by (subst ParseHexLoop.simps) (simp add: deref_def)

lemma ParseHexLoop_single: "ParseHexLoop [c] vch = vch"
  by (subst ParseHexLoop.simps) (simp add: deref_def CharToHex_neg NUL_not_hex)

lemma ParseHexLoop_pair:
  "ParseHexLoop (h # l # ds) vch =
     (if is_hex_digit h \<and> is_hex_digit l then ParseHexLoop ds (vch @ [hex_byte h l]) else vch)"
proof (cases "is_hex_digit h \<and> is_hex_digit l")
  case True
  then have "h \<noteq> NUL" using NUL_not_hex by auto
  moreover have "\<not> CharToHex h < 0" "\<not> CharToHex l < 0"
    using True by (simp_all add: CharToHex_neg)
  moreover have "push_bit 4 (CharToHex h) OR CharToHex l = 16 * CharToHex h + CharToHex l"
    using True CharToHex_range[of l] by (intro nibbles_or_add) auto
  ultimately show ?thesis using True
    by (subst ParseHexLoop.simps) (simp add: deref_def hex_byte_def Let_def)
next
  case False
  then have "CharToHex h < 0 \<or> CharToHex l < 0" by (simp add: CharToHex_neg)
  then show ?thesis using False
    by (subst ParseHexLoop.simps) (auto simp add: deref_def Let_def)
qed

lemma ParseHexLoop_decode:
  "ParseHexLoop psz vch = vch @ decode_pairs (takeWhile is_hex_digit psz)"
proof (induction psz arbitrary: vch rule: decode_pairs.induct)
  case (1 h l ds)
  then show ?case by (simp add: ParseHexLoop_pair)
next
  case (2 c)
  then show ?case by (simp add: ParseHexLoop_single)
next
  case 3
  then show ?case by (simp add: ParseHexLoop_Nil)
qed

lemma prefix_test:
  "(deref str = CHR ''0'' \<and> tolower_c (deref (tl str)) = CHR ''x'') \<longleftrightarrow>
     (take 2 str = ''0x'' \<or> take 2 str = ''0X'')"
proof (cases str)
  case Nil
  then show ?thesis by (simp add: deref_def NUL_def)
next
  case (Cons a r)
  show ?thesis
  proof (cases r)
    case Nil
    then show ?thesis using Cons by (simp add: deref_def tolower_c_x NUL_def)
  next
    case (Cons b r')
    then show ?thesis using \<open>str = a # r\<close> by (auto simp add: deref_def tolower_c_x)
  qed
qed

lemma tl_tl_drop: "tl (tl xs) = drop 2 xs"
  by (simp add: drop_Suc numeral_2_eq_2 tl_drop)

lemma ParseHexString_decode:
  "ParseHexString s = decode_pairs (takeWhile is_hex_digit (strip_0x s))"
  unfolding ParseHexString_def strip_0x_def Let_def prefix_test tl_tl_drop
  by (simp add: ParseHexLoop_decode)

lemma takeWhile_all: "list_all P xs \<Longrightarrow> takeWhile P xs = xs"
  by (induction xs) auto

lemma takeWhile_digits:
  "list_all is_hex_digit ds \<Longrightarrow> \<not> is_hex_digit c \<Longrightarrow>
   takeWhile is_hex_digit (ds @ c # rest) = ds"
  by (induction ds) auto

lemma x_not_hex: "\<not> is_hex_digit CHR ''x''" "\<not> is_hex_digit CHR ''X''" "is_hex_digit CHR ''0''"
  by (simp_all add: is_hex_digit_def)

lemma strip_0x_digits:
  assumes "list_all is_hex_digit ds" "even (length ds)" "\<not> is_hex_digit c"
  shows "strip_0x (ds @ c # rest) = ds @ c # rest"
proof (cases ds)
  case Nil
  then show ?thesis using assms(3) x_not_hex(3) by (auto simp: strip_0x_def)
next
  case (Cons a r)
  with assms(2) obtain b r' where r: "r = b # r'" by (cases r) auto
  with Cons assms(1) have "is_hex_digit b" by simp
  then have "b \<noteq> CHR ''x''" "b \<noteq> CHR ''X''" using x_not_hex by auto
  then show ?thesis using Cons r by (simp add: strip_0x_def)
qed

lemma length_decode_pairs: "length (decode_pairs ds) = length ds div 2"
  by (induction ds rule: decode_pairs.induct) simp_all

lemma ParseHexString_pairs:
  assumes "list_all is_hex_digit ds" "even (length ds)" "\<not> is_hex_digit c"
    and "pre \<in> {[], ''0x'', ''0X''}"
  shows "ParseHexString (pre @ ds @ c # rest) = decode_pairs ds"
proof -
  from assms(4) consider "pre = []" | "pre = ''0x''" | "pre = ''0X''" by auto
  then have "strip_0x (pre @ ds @ c # rest) = ds @ c # rest"
  proof cases
    case 1
    then show ?thesis using strip_0x_digits[OF assms(1,2,3)] by simp
  next
    case 2
    then show ?thesis by (simp add: strip_0x_def)
  next
    case 3
    then show ?thesis by (simp add: strip_0x_def)
  qed
  then show ?thesis
    by (simp add: ParseHexString_decode takeWhile_digits[OF assms(1,3)])
qed

text \<open>
  Claim C4. \<open>ParseHexString\<close> skips an optional leading \<open>0x\<close> or \<open>0X\<close>, stops at the first
  character that is not a hexadecimal digit (the end of the string included) and returns
  the bytes of the digit pairs that lie wholly before that point. In particular \<open>n\<close>
  pairs of digits followed by a character that is no digit give those \<open>n\<close> bytes, with or
  without the prefix. The function is total: it returns a byte vector for every string.
\<close>

theorem ParseHexString_tolerant:
  "ParseHexString s = decode_pairs (takeWhile is_hex_digit (strip_0x s))
   \<and> (list_all is_hex_digit ds \<and> even (length ds) \<and> \<not> is_hex_digit c
        \<and> pre \<in> {[], ''0x'', ''0X''} \<longrightarrow>
      ParseHexString (pre @ ds @ c # rest) = decode_pairs ds
      \<and> length (ParseHexString (pre @ ds @ c # rest)) = length ds div 2)"
  using ParseHexString_pairs[of ds c pre rest]
  by (simp add: ParseHexString_decode length_decode_pairs)

theorem ParseHexString_tolerant_witness:
  "list_all is_hex_digit ''12aB'' \<and> even (length ''12aB'') \<and> \<not> is_hex_digit CHR ''z''
   \<and> ParseHexString ''0x12aBz9'' = [0x12, 0xAB]
   \<and> ParseHexString ''12aBz9'' = [0x12, 0xAB]
   \<and> ParseHexString ''0X12aBz9'' = [0x12, 0xAB]"
  using ParseHexString_tolerant[of "''0x12aBz9''" "''12aB''" "CHR ''z''" "''0x''" "''9''"]
    ParseHexString_tolerant[of "''12aBz9''" "''12aB''" "CHR ''z''" "[]" "''9''"]
    ParseHexString_tolerant[of "''0X12aBz9''" "''12aB''" "CHR ''z''" "''0X''" "''9''"]
  by (simp add: is_hex_digit_def hex_byte_def CharToHex_def char_between_def strip_0x_def)

section \<open>Encoding and decoding round trip\<close>

lemma ToHexLoop_eq: "ToHexLoop p strHex = strHex @ hex_chunk p"
proof (induction p strHex rule: ToHexLoop.induct)
  case (1 p strHex)
  show ?case
  proof (cases "p = []")
    case True
    then show ?thesis by (subst ToHexLoop.simps) (simp add: hex_chunk_def)
  next
    case False
    have "hex_chunk (take 64 p) @ hex_chunk (drop 64 p) = hex_chunk p"
      unfolding hex_chunk_def by (simp flip: concat_append map_append)
    then show ?thesis using False 1
      by (subst ToHexLoop.simps) simp
  qed
qed

lemma CharToHex_hexc:
  "n < 16 \<Longrightarrow> CharToHex (hexc ! n) = int n \<and> is_hex_digit (hexc ! n) \<and> hexc ! n \<in> set hexc"
proof -
  assume "n < 16"
  then have "n \<in> {0, 1, 2, 3, 4, 5, 6, 7, 8, 9, 10, 11, 12, 13, 14, 15}" by (simp, arith)
  then show ?thesis
    by (auto simp: hexc_def CharToHex_def char_between_def is_hex_digit_def)
qed

lemma unat_high_nibble: "unat (drop_bit 4 (c :: byte)) = unat c div 16"
  by (simp add: drop_bit_eq_div unat_div)

lemma unat_low_nibble: "unat ((c :: byte) AND 15) = unat c mod 16"
proof -
  have "(15 :: byte) = mask 4" by (simp add: mask_eq_exp_minus_1)
  then have "c AND 15 = take_bit 4 c" by (simp add: take_bit_eq_mask)
  then show ?thesis by (simp add: take_bit_eq_mod unat_mod)
qed

lemma byte_nibbles:
  fixes c :: byte
  shows "unat (drop_bit 4 c) < 16" "unat (c AND 15) < 16"
    "(word_of_int (16 * int (unat (drop_bit 4 c)) + int (unat (c AND 15))) :: byte) = c"
proof -
  have "unat c < 256" using unsigned_less[of c] by simp
  then show "unat (drop_bit 4 c) < 16" by (simp add: unat_high_nibble)
  show "unat (c AND 15) < 16" by (simp add: unat_low_nibble)
  have "16 * int (n div 16) + int (n mod 16) = int n" for n
    by (simp add: zdiv_int zmod_int)
  then have "16 * int (unat (drop_bit 4 c)) + int (unat (c AND 15)) = int (unat c)"
    by (simp only: unat_high_nibble unat_low_nibble)
  then show "(word_of_int (16 * int (unat (drop_bit 4 c)) + int (unat (c AND 15))) :: byte) = c"
    by simp
qed

lemma hex_byte_hexc: "hex_byte (hexc ! unat (drop_bit 4 c)) (hexc ! unat (c AND 15)) = c"
proof -
  have "CharToHex (hexc ! unat (drop_bit 4 c)) = int (unat (drop_bit 4 c))"
    using CharToHex_hexc[OF byte_nibbles(1)] by simp
  moreover have "CharToHex (hexc ! unat (c AND 15)) = int (unat (c AND 15))"
    using CharToHex_hexc[OF byte_nibbles(2)] by simp
  ultimately show ?thesis by (simp only: hex_byte_def byte_nibbles(3))
qed

lemma hex_chunk_Cons:
  "hex_chunk (c # p) = hexc ! unat (drop_bit 4 c) # hexc ! unat (c AND 15) # hex_chunk p"
  by (simp add: hex_chunk_def)

lemma hex_chunk_all_hex: "list_all is_hex_digit (hex_chunk p)"
  by (induction p)
     (simp add: hex_chunk_def, simp add: hex_chunk_Cons CharToHex_hexc byte_nibbles(1,2))

lemma hex_chunk_lower: "list_all (\<lambda>c. c \<in> set hexc) (hex_chunk p)"
  by (induction p)
     (simp add: hex_chunk_def, simp add: hex_chunk_Cons CharToHex_hexc byte_nibbles(1,2))

lemma length_hex_chunk: "length (hex_chunk p) = 2 * length p"
  by (induction p) (simp add: hex_chunk_def, simp add: hex_chunk_Cons)

lemma decode_hex_chunk: "decode_pairs (hex_chunk p) = p"
  by (induction p) (simp add: hex_chunk_def, simp add: hex_chunk_Cons hex_byte_hexc)

lemma ToHexString_eq: "ToHexString v = (if v = [] then [] else ''0x'' @ hex_chunk v)"
  by (simp add: ToHexString_def ToHexLoop_eq)

lemma ParseHexString_ToHexString: "ParseHexString (ToHexString v) = v"
proof (cases "v = []")
  case True
  then show ?thesis by (simp add: ToHexString_def ParseHexString_decode strip_0x_def)
next
  case False
  then have "ToHexString v = ''0x'' @ hex_chunk v" by (simp add: ToHexString_eq)
  then have "ParseHexString (ToHexString v) =
      decode_pairs (takeWhile is_hex_digit (hex_chunk v))"
    by (simp add: ParseHexString_decode strip_0x_def)
  then show ?thesis by (simp add: takeWhile_all hex_chunk_all_hex decode_hex_chunk)
qed

text \<open>
  Claim C10. Decoding what \<open>ToHexString\<close> produces gives back the byte vector, the empty
  one included. \<open>ToHexString\<close> gives the empty string for the empty vector and otherwise
  \<open>0x\<close> followed by two characters per byte, all of them among \<open>0123456789abcdef\<close>.
\<close>

theorem hex_round_trip:
  "ParseHexString (ToHexString v) = v
   \<and> ToHexString [] = []
   \<and> ToHexString v = (if v = [] then [] else ''0x'' @ hex_chunk v)
   \<and> list_all (\<lambda>c. c \<in> set ''0123456789abcdef'') (hex_chunk v)
   \<and> length (hex_chunk v) = 2 * length v"
proof -
  have lower: "list_all (\<lambda>c. c \<in> set ''0123456789abcdef'') (hex_chunk v)"
    using hex_chunk_lower[of v] by (simp only: hexc_def)
  have empty: "ToHexString [] = []"
    by (simp add: ToHexString_def)
  show ?thesis
    using ParseHexString_ToHexString[of v] empty ToHexString_eq[of v] lower length_hex_chunk[of v]
    by blast
qed

section \<open>Reversing a hex numeric string\<close>

lemma update_two:
  "b + 2 \<le> length out \<Longrightarrow> out[b + 1 := x, b := y] = take b out @ y # x # drop (b + 2) out"
proof -
  assume len: "b + 2 \<le> length out"
  then have "out[b + 1 := x] = take (b + 1) out @ x # drop (b + 2) out"
    by (simp add: upd_conv_take_nth_drop)
  moreover have "(take (b + 1) out)[b := y] = take b out @ [y]"
    using len by (simp add: upd_conv_take_nth_drop min_def)
  ultimately show ?thesis using len by (simp add: list_update_append)
qed

lemma length_swap_from_right: "length (swap_from_right r) = length r + length r mod 2"
  by (induction r rule: swap_from_right.induct) (auto simp: mod_Suc)

text \<open>
  The loop, started at \<open>e = length r + 1\<close> with the digits \<open>rev r\<close> at the indices from 2
  on, writes \<open>swap_from_right r\<close> into \<open>strOut\<close> from index \<open>b\<close> on and leaves the rest
  as it was.
\<close>

lemma RevLoop_swap:
  "take (length r) (drop 2 strIn) = rev r \<Longrightarrow> b + length (swap_from_right r) \<le> length out \<Longrightarrow>
   RevLoop strIn b (length r + 1) out =
     take b out @ swap_from_right r @ drop (b + length (swap_from_right r)) out"
proof (induction r arbitrary: b out rule: swap_from_right.induct)
  case (1 x y r)
  let ?n = "length r"
  from 1(2) have len: "?n + 2 \<le> length (drop 2 strIn)"
    by (metis length_rev length_take min.cobounded1 length_Cons add_2_eq_Suc')
  from 1(2) have eq: "take (?n + 2) (drop 2 strIn) = rev r @ [y, x]" by simp
  have ex: "strIn ! (?n + 3) = x"
  proof -
    have "strIn ! (?n + 3) = drop 2 strIn ! (?n + 1)" using len by (simp add: eval_nat_numeral)
    also have "\<dots> = take (?n + 2) (drop 2 strIn) ! (?n + 1)" by simp
    also have "\<dots> = x" unfolding eq by (simp add: nth_append)
    finally show ?thesis .
  qed
  have ey: "strIn ! (?n + 2) = y"
  proof -
    have "strIn ! (?n + 2) = drop 2 strIn ! ?n" using len by (simp add: eval_nat_numeral)
    also have "\<dots> = take (?n + 2) (drop 2 strIn) ! ?n" by simp
    also have "\<dots> = y" unfolding eq by (simp add: nth_append)
    finally show ?thesis .
  qed
  have pre: "take ?n (drop 2 strIn) = rev r"
  proof -
    have "take ?n (drop 2 strIn) = take ?n (take (?n + 2) (drop 2 strIn))" by simp
    also have "\<dots> = rev r" unfolding eq by simp
    finally show ?thesis .
  qed
  let ?out = "out[b + 1 := x, b := y]"
  from 1(3) have b2: "b + 2 \<le> length out" by simp
  have out': "?out = take b out @ y # x # drop (b + 2) out" using b2 by (rule update_two)
  have IH: "RevLoop strIn (b + 2) (?n + 1) ?out =
      take (b + 2) ?out @ swap_from_right r @ drop (b + 2 + length (swap_from_right r)) ?out"
    using 1(3) by (intro 1(1) pre) simp
  have t: "take (b + 2) ?out = take b out @ [y, x]" using b2 unfolding out' by simp
  have d: "drop (b + 2 + length (swap_from_right r)) ?out =
      drop (b + 2 + length (swap_from_right r)) out"
    by simp
  have "RevLoop strIn b (length (x # y # r) + 1) out = RevLoop strIn (b + 2) (?n + 1) ?out"
    using ex ey by (subst RevLoop.simps) (simp add: Let_def eval_nat_numeral)
  then show ?case unfolding IH t d by (simp add: add.assoc)
next
  case (2 a)
  then have "drop 2 strIn \<noteq> []" by auto
  then have "strIn ! 2 = hd (drop 2 strIn)" by (simp add: hd_drop_conv_nth)
  also have "\<dots> = a" using 2(1) by (cases "drop 2 strIn") auto
  finally have a: "strIn ! 2 = a" .
  from 2 have "b + 2 \<le> length out" by simp
  then have "out[b + 1 := a, b := CHR ''0''] = take b out @ CHR ''0'' # a # drop (b + 2) out"
    by (rule update_two)
  then show ?case using a by (subst RevLoop.simps) (simp add: Let_def eval_nat_numeral)
next
  case 3
  then show ?case by (subst RevLoop.simps) simp
qed

lemma swap_from_right_append:
  "even (length r) \<Longrightarrow> swap_from_right (r @ s) = swap_from_right r @ swap_from_right s"
  by (induction r rule: swap_from_right.induct) auto

lemma swap_from_right_pairs:
  "even (length ds) \<Longrightarrow> swap_from_right (rev ds) = reverse_bytes ds"
  unfolding reverse_bytes_def
  by (induction ds rule: pairs.induct) (auto simp: swap_from_right_append)

lemma swap_from_right_pad:
  "odd (length r) \<Longrightarrow> swap_from_right (r @ [CHR ''0'']) = swap_from_right r"
  by (induction r rule: swap_from_right.induct) auto

lemma swap_from_right_odd:
  assumes "odd (length ds)"
  shows "swap_from_right (rev ds) = reverse_bytes (CHR ''0'' # ds)"
proof -
  have "swap_from_right (rev ds) = swap_from_right (rev (CHR ''0'' # ds))"
    using assms by (simp add: swap_from_right_pad)
  also have "\<dots> = reverse_bytes (CHR ''0'' # ds)"
    using assms by (intro swap_from_right_pairs) simp
  finally show ?thesis .
qed

lemma hexnum_class_prefix: "hexnum_class CHR ''x''" "hexnum_class CHR ''X''" "hexnum_class CHR ''0''"
  by (simp_all add: hexnum_class_def char_between_def)

lemma ReverseHexNumericString_prefixed:
  assumes x: "x = CHR ''x'' \<or> x = CHR ''X''" and cls: "list_all hexnum_class ds"
  shows "ReverseHexNumericString (CHR ''0'' # x # ds) = ''0x'' @ swap_from_right (rev ds)"
proof -
  let ?in = "CHR ''0'' # x # ds"
  let ?n = "length ds"
  let ?out = "CHR ''0'' # CHR ''x'' # replicate (?n + ?n mod 2) NUL"
  have hn: "isHexNumeric ?in"
    using x cls hexnum_class_prefix by (auto simp: isHexNumeric_def list_ex_iff list_all_iff)
  have out: "(replicate (length ?in + length ?in mod 2) NUL)[0 := CHR ''0'', 1 := CHR ''x''] = ?out"
    by (simp add: replicate_Suc[symmetric] del: replicate_Suc) (simp add: mod_Suc)
  have "RevLoop ?in 2 (length (rev ds) + 1) ?out =
      take 2 ?out @ swap_from_right (rev ds) @ drop (2 + length (swap_from_right (rev ds))) ?out"
    by (rule RevLoop_swap) (simp_all add: length_swap_from_right)
  then have "RevLoop ?in 2 (?n + 1) ?out = ''0x'' @ swap_from_right (rev ds)"
    by (simp add: length_swap_from_right)
  then show ?thesis
    using hn x unfolding ReverseHexNumericString_def Let_def out
    by (auto simp add: tolower_c_x)
qed

lemma index_prefix_test:
  "(2 \<le> length s \<and> s ! 0 = CHR ''0'' \<and> tolower_c (s ! 1) = CHR ''x'') \<longleftrightarrow>
     (take 2 s = ''0x'' \<or> take 2 s = ''0X'')"
proof (cases s)
  case Nil
  then show ?thesis by simp
next
  case (Cons a r)
  show ?thesis
  proof (cases r)
    case Nil
    then show ?thesis using Cons by simp
  next
    case (Cons b r')
    then show ?thesis using \<open>s = a # r\<close> by (auto simp add: tolower_c_x)
  qed
qed

lemma ReverseHexNumericString_no_prefix:
  "\<not> (take 2 s = ''0x'' \<or> take 2 s = ''0X'') \<Longrightarrow> ReverseHexNumericString s = []"
  unfolding ReverseHexNumericString_def index_prefix_test by simp

lemma ReverseHexNumericString_bad_char:
  "list_ex (\<lambda>c. \<not> (is_hex_digit c \<or> c = CHR ''x'' \<or> c = CHR ''X'')) s \<Longrightarrow>
   ReverseHexNumericString s = []"
  by (simp add: ReverseHexNumericString_def isHexNumeric_def hexnum_class_iff)

lemma ReverseHexNumericString_odd:
  assumes "odd (length ds)" "list_all is_hex_digit ds" "x = CHR ''x'' \<or> x = CHR ''X''"
  shows "ReverseHexNumericString (CHR ''0'' # x # ds) = ''0x'' @ reverse_bytes (CHR ''0'' # ds)"
proof -
  have "list_all hexnum_class ds"
    using assms(2) by (simp add: list_all_iff hexnum_class_iff)
  from ReverseHexNumericString_prefixed[OF assms(3) this] show ?thesis
    by (simp add: swap_from_right_odd[OF assms(1)])
qed

text \<open>
  Claim C5, as amended. For a string made of \<open>0x\<close> or \<open>0X\<close> and an odd number of
  hexadecimal digits, \<open>ReverseHexNumericString\<close> returns \<open>0x\<close> followed by the digits,
  padded on the left with one \<open>0\<close>, grouped in twos and the groups in reverse order. A
  string that does not begin with \<open>0x\<close> or \<open>0X\<close>, or that holds a character other than a
  hexadecimal digit, \<open>x\<close> and \<open>X\<close>, gives the empty string. (An \<open>x\<close> or \<open>X\<close> after the
  prefix is not rejected: the character class of \<open>isHexNumeric\<close> admits it anywhere.)
\<close>

theorem ReverseHexNumericString_odd_digits:
  "(odd (length ds) \<and> list_all is_hex_digit ds \<and> (x = CHR ''x'' \<or> x = CHR ''X'') \<longrightarrow>
      ReverseHexNumericString (CHR ''0'' # x # ds) = ''0x'' @ reverse_bytes (CHR ''0'' # ds))
   \<and> (\<not> (take 2 s = ''0x'' \<or> take 2 s = ''0X'')
        \<or> list_ex (\<lambda>c. \<not> (is_hex_digit c \<or> c = CHR ''x'' \<or> c = CHR ''X'')) s \<longrightarrow>
      ReverseHexNumericString s = [])"
  using ReverseHexNumericString_odd[of ds x] ReverseHexNumericString_no_prefix[of s]
    ReverseHexNumericString_bad_char[of s]
  by blast

theorem ReverseHexNumericString_odd_digits_witness:
  "odd (length ''123'') \<and> list_all is_hex_digit ''123''
   \<and> ReverseHexNumericString ''0x123'' = ''0x2301''
   \<and> ReverseHexNumericString ''0x9'' = ''0x09''
   \<and> list_ex (\<lambda>c. \<not> (is_hex_digit c \<or> c = CHR ''x'' \<or> c = CHR ''X'')) ''0x12g''
   \<and> ReverseHexNumericString ''0x12g'' = []
   \<and> ReverseHexNumericString ''1234'' = []"
  using ReverseHexNumericString_odd_digits[of "''123''" "CHR ''x''" "''0x12g''"]
    ReverseHexNumericString_odd_digits[of "''9''" "CHR ''x''" "''1234''"]
  by (simp add: is_hex_digit_def reverse_bytes_def)

text \<open>
  The claim as it was stated fails: \<open>0x1x\<close> has the prefix and a character after it that
  is no hexadecimal digit, and the result is not the empty string.
\<close>

theorem ReverseHexNumericString_counterexample:
  "take 2 ''0x1x'' = ''0x''
   \<and> drop 2 ''0x1x'' = ''1x''
   \<and> \<not> is_hex_digit CHR ''x''
   \<and> ReverseHexNumericString ''0x1x'' = ''0x1x''
   \<and> ReverseHexNumericString ''0x1x'' \<noteq> []"
proof -
  have "list_all hexnum_class ''1x''"
    by (simp add: hexnum_class_def char_between_def)
  from ReverseHexNumericString_prefixed[OF _ this, of "CHR ''x''"]
  have "ReverseHexNumericString ''0x1x'' = ''0x1x''" by simp
  then show ?thesis by (simp add: is_hex_digit_def)
qed

section \<open>Attaching a module\<close>

lemma AttachModule_null: "AttachModule ops None st = (False, st)"
  by (simp add: AttachModule_def)

lemma AttachModule_rejected:
  "\<not> fst (docker_Attach ops (docker st) m) \<Longrightarrow>
   AttachModule ops (Some m) st =
     (False, st\<lparr>docker := snd (docker_Attach ops (docker st) m), deleted := deleted st @ [m]\<rparr>)"
  by (simp add: AttachModule_def split_beta)

lemma AttachModule_accepted:
  "fst (docker_Attach ops (docker st) m) \<Longrightarrow>
   AttachModule ops (Some m) st = (True, st\<lparr>docker := snd (docker_Attach ops (docker st) m)\<rparr>)"
  by (simp add: AttachModule_def split_beta)

lemma spec_Attach_duplicate:
  "name m \<in> set (map fst d) \<Longrightarrow> spec_Attach name d m = (False, d)"
  by (simp add: spec_Attach_def)

lemma spec_Attach_fresh:
  "name m \<notin> set (map fst d) \<Longrightarrow>
   fst (spec_Attach name d m) \<and> spec_GetObject (snd (spec_Attach name d m)) (name m) = Some m"
proof -
  assume fresh: "name m \<notin> set (map fst d)"
  then have "map_of d (name m) = None" by (simp add: map_of_eq_None_iff)
  then show ?thesis using fresh by (simp add: spec_Attach_def spec_GetObject_def map_add_def)
qed

text \<open>
  Claim C8. \<open>AttachModule\<close> returns false for a null instance, leaving everything as it
  was. When the container's \<open>Attach\<close> rejects the instance, \<open>AttachModule\<close> deletes the
  instance and returns false; when \<open>Attach\<close> accepts it, \<open>AttachModule\<close> returns true,
  deletes nothing, and the container is as \<open>Attach\<close> left it. With the container of the
  specification, an instance whose name is already attached is rejected, hence deleted,
  and the container is unchanged; an instance with a new name is accepted and the
  container then returns it for its name.
\<close>

theorem AttachModule_discards_or_keeps:
  "AttachModule ops None st = (False, st)
   \<and> (\<not> fst (docker_Attach ops (docker st) m) \<longrightarrow>
        fst (AttachModule ops (Some m) st) = False
        \<and> deleted (snd (AttachModule ops (Some m) st)) = deleted st @ [m])
   \<and> (fst (docker_Attach ops (docker st) m) \<longrightarrow>
        fst (AttachModule ops (Some m) st) = True
        \<and> deleted (snd (AttachModule ops (Some m) st)) = deleted st
        \<and> docker (snd (AttachModule ops (Some m) st)) = snd (docker_Attach ops (docker st) m))
   \<and> (docker_Attach ops = spec_Attach name \<and> name m \<in> set (map fst (docker st)) \<longrightarrow>
        AttachModule ops (Some m) st = (False, st\<lparr>deleted := deleted st @ [m]\<rparr>))
   \<and> (docker_Attach ops = spec_Attach name \<and> name m \<notin> set (map fst (docker st)) \<longrightarrow>
        fst (AttachModule ops (Some m) st) = True
        \<and> deleted (snd (AttachModule ops (Some m) st)) = deleted st
        \<and> spec_GetObject (docker (snd (AttachModule ops (Some m) st))) (name m) = Some m)"
proof (intro conjI impI)
  show "AttachModule ops None st = (False, st)" by (rule AttachModule_null)
next
  assume r: "\<not> fst (docker_Attach ops (docker st) m)"
  show "fst (AttachModule ops (Some m) st) = False"
    by (simp add: AttachModule_rejected[OF r])
  show "deleted (snd (AttachModule ops (Some m) st)) = deleted st @ [m]"
    by (simp add: AttachModule_rejected[OF r])
next
  assume a: "fst (docker_Attach ops (docker st) m)"
  show "fst (AttachModule ops (Some m) st) = True"
    by (simp add: AttachModule_accepted[OF a])
  show "deleted (snd (AttachModule ops (Some m) st)) = deleted st"
    by (simp add: AttachModule_accepted[OF a])
  show "docker (snd (AttachModule ops (Some m) st)) = snd (docker_Attach ops (docker st) m)"
    by (simp add: AttachModule_accepted[OF a])
next
  assume d: "docker_Attach ops = spec_Attach name \<and> name m \<in> set (map fst (docker st))"
  then have "docker_Attach ops (docker st) m = (False, docker st)"
    by (simp add: spec_Attach_duplicate)
  then show "AttachModule ops (Some m) st = (False, st\<lparr>deleted := deleted st @ [m]\<rparr>)"
    by (simp add: AttachModule_def)
next
  assume f: "docker_Attach ops = spec_Attach name \<and> name m \<notin> set (map fst (docker st))"
  then have a: "fst (docker_Attach ops (docker st) m)"
    and g: "spec_GetObject (snd (docker_Attach ops (docker st) m)) (name m) = Some m"
    using spec_Attach_fresh[of name m "docker st"] by simp_all
  show "fst (AttachModule ops (Some m) st) = True"
    by (simp add: AttachModule_accepted[OF a])
  show "deleted (snd (AttachModule ops (Some m) st)) = deleted st"
    by (simp add: AttachModule_accepted[OF a])
  show "spec_GetObject (docker (snd (AttachModule ops (Some m) st))) (name m) = Some m"
    using g by (simp add: AttachModule_accepted[OF a])
qed

theorem AttachModule_discards_or_keeps_witness:
  "AttachModule example_docker None example_state = (False, example_state)
   \<and> docker_Attach example_docker = spec_Attach example_name
   \<and> example_name CService \<notin> set (map fst (docker example_state))
   \<and> AttachModule example_docker (Some CService) example_state =
       (True, example_state\<lparr>docker := [(''service'', CService)]\<rparr>)
   \<and> example_name CService \<in> set (map fst [(''service'', CService)])
   \<and> AttachModule example_docker (Some CService)
        (example_state\<lparr>docker := [(''service'', CService)]\<rparr>) =
       (False, example_state\<lparr>docker := [(''service'', CService)], deleted := [CService]\<rparr>)"
  using AttachModule_discards_or_keeps[of example_docker example_state CService example_name]
    AttachModule_discards_or_keeps[of example_docker
      "example_state\<lparr>docker := [(''service'', CService)]\<rparr>" CService example_name]
  by (simp add: example_docker_def example_state_def example_name_def spec_Attach_def
      AttachModule_def)

section \<open>The LOCK step of InitializeModules\<close>

lemma InitializeModules_loop_append:
  "InitializeModules_loop ops env (pre @ post) st =
     (case InitializeModules_loop ops env pre st of
        (False, st1) \<Rightarrow> (False, st1)
      | (True, st1) \<Rightarrow> InitializeModules_loop ops env post st1)"
  by (induction pre arbitrary: st) (auto split: prod.splits bool.splits)

lemma InitializeModules_loop_lock_fails:
  assumes "\<not> TryLockFile env (path_join (pathData env) ''.lock'')"
  shows "InitializeModules_loop ops env (LOCK # post) st =
     (False, st\<lparr>cerr := cerr st @ [''Cannot obtain a lock on data directory'']\<rparr>)"
  using assms by simp

lemma lock_split:
  "LOCK \<in> set ms \<Longrightarrow>
   ms = takeWhile (\<lambda>m. m \<noteq> LOCK) ms @ LOCK # tl (dropWhile (\<lambda>m. m \<noteq> LOCK) ms)"
proof -
  assume "LOCK \<in> set ms"
  then have "dropWhile (\<lambda>m. m \<noteq> LOCK) ms \<noteq> []" by (simp add: dropWhile_eq_Nil_conv)
  then have "dropWhile (\<lambda>m. m \<noteq> LOCK) ms = LOCK # tl (dropWhile (\<lambda>m. m \<noteq> LOCK) ms)"
    using hd_dropWhile[of "\<lambda>m. m \<noteq> LOCK" ms] by (cases "dropWhile (\<lambda>m. m \<noteq> LOCK) ms") auto
  then show ?thesis by (metis takeWhile_dropWhile_id)
qed

lemma InitializeModules_stops_at_lock:
  assumes "LOCK \<in> set (GetModules env mode)"
    and "\<not> TryLockFile env (path_join (pathData env) ''.lock'')"
  shows "fst (InitializeModules ops env mode st) = False
    \<and> created (snd (InitializeModules ops env mode st)) =
        created (snd (InitializeModules_loop ops env
          (takeWhile (\<lambda>m. m \<noteq> LOCK) (GetModules env mode)) st))
    \<and> docker (snd (InitializeModules ops env mode st)) =
        docker (snd (InitializeModules_loop ops env
          (takeWhile (\<lambda>m. m \<noteq> LOCK) (GetModules env mode)) st))
    \<and> deleted (snd (InitializeModules ops env mode st)) =
        deleted (snd (InitializeModules_loop ops env
          (takeWhile (\<lambda>m. m \<noteq> LOCK) (GetModules env mode)) st))"
proof -
  let ?ms = "GetModules env mode"
  let ?pre = "takeWhile (\<lambda>m. m \<noteq> LOCK) ?ms"
  let ?post = "tl (dropWhile (\<lambda>m. m \<noteq> LOCK) ?ms)"
  have "InitializeModules ops env mode st = InitializeModules_loop ops env (?pre @ LOCK # ?post) st"
    using lock_split[OF assms(1)] by (simp add: InitializeModules_def)
  then show ?thesis
    unfolding InitializeModules_loop_append
    by (cases "InitializeModules_loop ops env ?pre st")
       (auto simp: InitializeModules_loop_lock_fails[OF assms(2)]
          simp del: InitializeModules_loop.simps split: bool.splits)
qed

lemma Initialize_stops_at_lock:
  assumes "LOCK \<in> set (GetModules env (mode_type env))"
    and "\<not> TryLockFile env (path_join (pathData env) ''.lock'')"
  shows "fst (Initialize ops env st) \<noteq> None"
proof -
  have "\<not> fst (InitializeModules ops env (mode_type env) st')" for st'
    using InitializeModules_stops_at_lock[OF assms, of ops st'] by simp
  then show ?thesis
    by (simp add: Initialize_def Let_def split_beta)
qed

text \<open>
  Claim C6. When the module list of the mode contains \<open>LOCK\<close> and the lock on
  \<open>.lock\<close> in the data directory cannot be taken, \<open>InitializeModules\<close> returns false, and
  the instances created, the instances deleted and the container are those left by the
  modules listed before \<open>LOCK\<close>: no module listed after \<open>LOCK\<close> is instantiated or
  attached. \<open>Initialize\<close>, run in that mode, returns false as well, so startup aborts.
\<close>

theorem InitializeModules_lock_contended:
  assumes "LOCK \<in> set (GetModules env mode)"
    and "\<not> TryLockFile env (path_join (pathData env) ''.lock'')"
  shows "fst (InitializeModules ops env mode st) = False
    \<and> created (snd (InitializeModules ops env mode st)) =
        created (snd (InitializeModules_loop ops env
          (takeWhile (\<lambda>m. m \<noteq> LOCK) (GetModules env mode)) st))
    \<and> docker (snd (InitializeModules ops env mode st)) =
        docker (snd (InitializeModules_loop ops env
          (takeWhile (\<lambda>m. m \<noteq> LOCK) (GetModules env mode)) st))
    \<and> deleted (snd (InitializeModules ops env mode st)) =
        deleted (snd (InitializeModules_loop ops env
          (takeWhile (\<lambda>m. m \<noteq> LOCK) (GetModules env mode)) st))
    \<and> (mode = mode_type env \<longrightarrow> fst (Initialize ops env st) \<noteq> None)"
  using InitializeModules_stops_at_lock[OF assms, of ops st] Initialize_stops_at_lock[of env ops st]
    assms
  by blast

theorem InitializeModules_lock_contended_witness:
  "LOCK \<in> set (GetModules example_env MODE_SERVER)
   \<and> \<not> TryLockFile example_env (path_join (pathData example_env) ''.lock'')
   \<and> path_join (pathData example_env) ''.lock'' = ''/data/.lock''
   \<and> fst (InitializeModules example_docker example_env MODE_SERVER example_state) = False
   \<and> created (snd (InitializeModules example_docker example_env MODE_SERVER example_state)) =
       [CHttpServer]
   \<and> docker (snd (InitializeModules example_docker example_env MODE_SERVER example_state)) =
       [(''httpserver'', CHttpServer)]
   \<and> deleted (snd (InitializeModules example_docker example_env MODE_SERVER example_state)) = []
   \<and> fst (Initialize example_docker example_env example_state) = Some ModulesFailed"
proof -
  have listed: "LOCK \<in> set (GetModules example_env MODE_SERVER)"
    by (simp add: example_env_def)
  have refused: "\<not> TryLockFile example_env (path_join (pathData example_env) ''.lock'')"
    by (simp add: example_env_def)
  have path: "path_join (pathData example_env) ''.lock'' = ''/data/.lock''"
    by (simp add: example_env_def path_join_def)
  have before: "InitializeModules_loop example_docker example_env
      (takeWhile (\<lambda>m. m \<noteq> LOCK) (GetModules example_env MODE_SERVER)) example_state =
      (True, example_state\<lparr>docker := [(''httpserver'', CHttpServer)], created := [CHttpServer]\<rparr>)"
    by (simp add: example_env_def example_docker_def example_state_def example_name_def
        attach_new_def new_module_def AttachModule_def spec_Attach_def)
  have exit: "fst (Initialize example_docker example_env example_state) \<in>
      {None, Some ModulesFailed}"
    by (simp add: Initialize_def example_env_def example_docker_def example_state_def
        MINIMUM_HARD_DISK_AVAILABLE_def split_beta Let_def)
  have mode: "mode_type example_env = MODE_SERVER"
    by (simp add: example_env_def)
  note stops = InitializeModules_lock_contended[OF listed refused, of example_docker example_state]
  from stops mode have "fst (Initialize example_docker example_env example_state) \<noteq> None"
    by simp
  with exit have aborts: "fst (Initialize example_docker example_env example_state) =
      Some ModulesFailed"
    by auto
  from stops have false: "fst (InitializeModules example_docker example_env MODE_SERVER
      example_state) = False"
    by blast
  from stops before
  have left: "created (snd (InitializeModules example_docker example_env MODE_SERVER
        example_state)) = [CHttpServer]"
    "docker (snd (InitializeModules example_docker example_env MODE_SERVER example_state)) =
        [(''httpserver'', CHttpServer)]"
    "deleted (snd (InitializeModules example_docker example_env MODE_SERVER example_state)) = []"
    by (simp_all add: example_state_def)
  from listed refused path false left aborts show ?thesis by blast
qed

section \<open>The data directory step of Initialize\<close>










section \<open>Flushing twice\<close>

text \<open>
  A run of the flush loop splits its bucket list into the buckets it wrote, which are
  gone from the buffer, and the rest, on which it would stop in the same way again.
\<close>

lemma flush_buckets_split:
  "flush_buckets sz bs s = (res, s') \<Longrightarrow>
   \<exists>P R. bs = P @ R \<and> map fst (buffer s') = filter (\<lambda>b. b \<notin> set P) (map fst (buffer s))
     \<and> flush_buckets sz R s' = (res, s') \<and> is_open s' = is_open s \<and> (res = None \<longrightarrow> R = [])"
proof (induction bs arbitrary: s)
  case Nil
  then show ?case by auto
next
  case (Cons b bs)
  show ?case
  proof (cases "write_chunk sz (entries_of (chunks s) b @ entries_of (buffer s) b)")
    case (Inl cause)
    with Cons.prems have "res = Some (FlushFailed b cause)" "s' = s" by auto
    with Cons.prems show ?thesis
      by (intro exI[of _ "[]"] exI[of _ "b # bs"]) simp
  next
    case (Inr c)
    let ?s1 = "s\<lparr>chunks := AList.update b c (chunks s), buffer := AList.delete b (buffer s)\<rparr>"
    from Inr Cons.prems have "flush_buckets sz bs ?s1 = (res, s')" by simp
    from Cons.IH[OF this] obtain P R where pr: "bs = P @ R"
      "map fst (buffer s') = filter (\<lambda>b. b \<notin> set P) (map fst (buffer ?s1))"
      "flush_buckets sz R s' = (res, s')" "is_open s' = is_open ?s1" "res = None \<longrightarrow> R = []"
      by blast
    have "map fst (buffer s') = filter (\<lambda>x. x \<notin> set (b # P)) (map fst (buffer s))"
      using pr(2) by (simp add: delete_keys removeAll_filter_not_eq conj_commute eq_commute)
    with pr show ?thesis
      by (intro exI[of _ "b # P"] exI[of _ R]) simp
  qed
qed

lemma Flush_twice: "Flush sz (snd (Flush sz s)) = Flush sz s"
proof (cases "is_open s")
  case False
  then show ?thesis by (simp add: Flush_def)
next
  case True
  let ?L = "sort (remdups (map fst (buffer s)))"
  obtain res s' where fl: "flush_buckets sz ?L s = (res, s')" by (cases "flush_buckets sz ?L s")
  from flush_buckets_split[OF this] obtain P R where pr: "?L = P @ R"
    "map fst (buffer s') = filter (\<lambda>b. b \<notin> set P) (map fst (buffer s))"
    "flush_buckets sz R s' = (res, s')" "is_open s' = is_open s"
    by blast
  have "distinct ?L" by simp
  then have d: "distinct (P @ R)" using pr(1) by simp
  have "sort (remdups (map fst (buffer s'))) = filter (\<lambda>b. b \<notin> set P) ?L"
    by (simp add: pr(2) remdups_filter filter_sort)
  also have "\<dots> = filter (\<lambda>b. b \<notin> set P) (P @ R)" by (simp only: pr(1))
  also have "\<dots> = R" using d by (auto simp: filter_id_conv)
  finally have "sort (remdups (map fst (buffer s'))) = R" .
  then have "Flush sz s' = (res, s')" using pr(3,4) True by (simp add: Flush_def)
  moreover have "Flush sz s = (res, s')" using fl True by (simp add: Flush_def)
  ultimately show ?thesis by simp
qed

lemma write_chunk_small:
  "\<forall>r. sz r \<le> 4294967295 \<Longrightarrow> write_chunk sz es = Inr (dedup_sorted es)"
proof -
  assume "\<forall>r. sz r \<le> 4294967295"
  then have "\<not> 4294967295 < sz r" for r by (simp add: not_less)
  then show ?thesis by (simp add: write_chunk_def Let_def list_ex_iff split_beta)
qed

lemma flush_buckets_small:
  assumes "\<forall>r. sz r \<le> 4294967295"
  shows "fst (flush_buckets sz bs s) = None
    \<and> map fst (buffer (snd (flush_buckets sz bs s))) =
        filter (\<lambda>b. b \<notin> set bs) (map fst (buffer s))"
proof (induction bs arbitrary: s)
  case Nil
  then show ?case by simp
next
  case (Cons b bs)
  show ?case
    by (simp add: write_chunk_small[OF assms] Cons.IH delete_keys removeAll_filter_not_eq
        conj_commute eq_commute)
qed

lemma Flush_small:
  assumes "is_open s" "\<forall>r. sz r \<le> 4294967295"
  shows "fst (Flush sz s) = None \<and> buffer (snd (Flush sz s)) = []"
proof -
  let ?L = "sort (remdups (map fst (buffer s)))"
  have "map fst (buffer (snd (flush_buckets sz ?L s))) =
      filter (\<lambda>b. b \<notin> set ?L) (map fst (buffer s))"
    using flush_buckets_small[OF assms(2), of ?L s] by blast
  also have "\<dots> = []" by (simp add: filter_empty_conv)
  finally have empty: "buffer (snd (flush_buckets sz ?L s)) = []" by simp
  have "fst (flush_buckets sz ?L s) = None"
    using flush_buckets_small[OF assms(2), of ?L s] by blast
  with empty show ?thesis using assms(1) by (simp add: Flush_def)
qed

text \<open>
  Claim C2. \<open>Flush\<close> twice in a row: the second \<open>Flush\<close> leaves the chunks and the
  buffer (the whole state) as the first left them and returns what the first returned,
  so it returns success when the first did. On an open database whose records all
  serialize to at most \<open>2^32 - 1\<close> bytes, the only failure the model has does not occur:
  both calls return success and the buffer is empty after the first.
\<close>

theorem Flush_idempotent:
  "chunks (snd (Flush sz (snd (Flush sz s)))) = chunks (snd (Flush sz s))
   \<and> buffer (snd (Flush sz (snd (Flush sz s)))) = buffer (snd (Flush sz s))
   \<and> snd (Flush sz (snd (Flush sz s))) = snd (Flush sz s)
   \<and> fst (Flush sz (snd (Flush sz s))) = fst (Flush sz s)
   \<and> (is_open s \<and> (\<forall>r. sz r \<le> 4294967295) \<longrightarrow>
        fst (Flush sz s) = None \<and> fst (Flush sz (snd (Flush sz s))) = None
        \<and> buffer (snd (Flush sz s)) = [])"
  using Flush_small[of s sz] by (simp add: Flush_twice)

theorem Flush_idempotent_witness:
  "is_open example_buffered \<and> (\<forall>r. example_size r \<le> 4294967295)
   \<and> Flush example_size example_buffered =
       (None, \<lparr>is_open = True, bucket_width = 3600, buffer = [],
               chunks = [(0, [(5, 1)]), (1, [(5, 7)])]\<rparr>)
   \<and> fst (Flush example_size (snd (Flush example_size example_buffered))) = None
   \<and> snd (Flush example_size (snd (Flush example_size example_buffered))) =
       \<lparr>is_open = True, bucket_width = 3600, buffer = [],
        chunks = [(0, [(5, 1)]), (1, [(5, 7)])]\<rparr>"
proof -
  have hyp: "is_open example_buffered" "\<forall>r. example_size r \<le> 4294967295"
    by (simp_all add: example_buffered_def example_size_def)
  have first: "Flush example_size example_buffered =
       (None, \<lparr>is_open = True, bucket_width = 3600, buffer = [],
               chunks = [(0, [(5, 1)]), (1, [(5, 7)])]\<rparr>)"
    by (simp add: Flush_def example_buffered_def example_size_def write_chunk_def
        dedup_sorted_def entries_of_def)
  from Flush_idempotent[of example_size example_buffered] hyp first show ?thesis
    by simp
qed

section \<open>Reading what was written\<close>

lemma read_record_entries: "read_record cs b k = map_of (entries_of cs b) k"
  by (simp add: read_record_def entries_of_def split: option.splits)

lemma Retrieve_holds:
  "is_open s \<Longrightarrow> holds_record s (bucket_of s t) k r \<Longrightarrow> Retrieve t k s = Inr (Some r)"
  by (auto simp: Retrieve_def holds_record_def read_record_entries Let_def)

lemma entries_of_update:
  "entries_of (AList.update b v al) b' = (if b' = b then v else entries_of al b')"
  by (simp add: entries_of_def update_conv')

lemma entries_of_delete:
  "entries_of (AList.delete b al) b' = (if b' = b then [] else entries_of al b')"
  by (simp add: entries_of_def delete_conv')

lemma map_fst_dedup_sorted: "map fst (dedup_sorted es) = sort (remdups (map fst es))"
  by (simp add: dedup_sorted_def comp_def)

lemma map_of_dedup_sorted: "map_of (dedup_sorted es) k = map_of (rev es) k"
proof (cases "k \<in> fst ` set es")
  case True
  then have "k \<in> set (sort (remdups (map fst es)))" by simp
  then have "map_of (dedup_sorted es) k = Some (the (map_of (rev es) k))"
    unfolding dedup_sorted_def by (simp add: map_of_map_restrict)
  moreover from True have "map_of (rev es) k \<noteq> None"
    by (simp add: map_of_eq_None_iff)
  ultimately show ?thesis by auto
next
  case False
  then have "map_of (dedup_sorted es) k = None"
    by (simp add: map_of_eq_None_iff map_fst_dedup_sorted[simplified] image_image dedup_sorted_def)
  moreover from False have "map_of (rev es) k = None" by (simp add: map_of_eq_None_iff)
  ultimately show ?thesis by simp
qed

lemma map_of_rev_distinct: "distinct (map fst es) \<Longrightarrow> map_of (rev es) = map_of es"
  by (subst map_of_inject_set) (simp_all add: rev_map[symmetric])

lemma holds_record_Update:
  assumes "holds_record s b k r" "Update t' k' r' s = Inr s'" "\<not> (bucket_of s t' = b \<and> k' = k)"
  shows "holds_record s' b k r"
  using assms
  by (auto simp: Update_def holds_record_def Let_def entries_of_update split: if_splits)

lemma Update_frame:
  assumes "Update t' k' r' s = Inr s'"
  shows "is_open s' = is_open s" "bucket_width s' = bucket_width s"
  using assms by (auto simp: Update_def Let_def split: if_splits)

lemma holds_record_flush_step:
  assumes "holds_record s b k r"
    and "write_chunk sz (entries_of (chunks s) b' @ entries_of (buffer s) b') = Inr c"
  shows "holds_record
    (s\<lparr>chunks := AList.update b' c (chunks s), buffer := AList.delete b' (buffer s)\<rparr>) b k r"
proof (cases "b' = b")
  case False
  with assms(1) show ?thesis by (simp add: holds_record_def entries_of_update entries_of_delete)
next
  case True
  let ?ex = "entries_of (chunks s) b" and ?bu = "entries_of (buffer s) b"
  from assms(2) True have c: "c = dedup_sorted (?ex @ ?bu)"
    by (simp add: write_chunk_def Let_def split: if_splits)
  have dist: "distinct (map fst c)" by (simp add: c map_fst_dedup_sorted)
  have "map_of c k = map_of (rev (?ex @ ?bu)) k" unfolding c by (rule map_of_dedup_sorted)
  also have "\<dots> = (case map_of (rev ?bu) k of Some v \<Rightarrow> Some v | None \<Rightarrow> map_of (rev ?ex) k)"
    by (simp add: map_add_def split: option.splits)
  also have "\<dots> = Some r"
    using assms(1) by (auto simp: holds_record_def map_of_rev_distinct)
  finally show ?thesis
    using True dist by (simp add: holds_record_def entries_of_update entries_of_delete)
qed

lemma flush_buckets_frame:
  "is_open (snd (flush_buckets sz bs s)) = is_open s
   \<and> bucket_width (snd (flush_buckets sz bs s)) = bucket_width s"
  by (induction bs arbitrary: s) (auto split: sum.splits)

lemma holds_record_flush_buckets:
  "holds_record s b k r \<Longrightarrow> holds_record (snd (flush_buckets sz bs s)) b k r"
proof (induction bs arbitrary: s)
  case Nil
  then show ?case by simp
next
  case (Cons b' bs)
  show ?case
  proof (cases "write_chunk sz (entries_of (chunks s) b' @ entries_of (buffer s) b')")
    case (Inl cause)
    then show ?thesis using Cons.prems by simp
  next
    case (Inr c)
    then show ?thesis using Cons.IH[OF holds_record_flush_step[OF Cons.prems Inr]] by simp
  qed
qed

lemma Flush_frame:
  "is_open (snd (Flush sz s)) = is_open s" "bucket_width (snd (Flush sz s)) = bucket_width s"
  by (simp_all add: Flush_def flush_buckets_frame)

lemma holds_record_Flush: "holds_record s b k r \<Longrightarrow> holds_record (snd (Flush sz s)) b k r"
  by (simp add: Flush_def holds_record_flush_buckets)

lemma bucket_of_cong: "bucket_width s' = bucket_width s \<Longrightarrow> bucket_of s' t = bucket_of s t"
  by (simp add: bucket_of_def)

lemma apply_op_frame:
  "is_open (apply_op sz s op) = is_open s \<and> bucket_width (apply_op sz s op) = bucket_width s"
  by (cases op) (auto simp: Flush_frame Update_frame split: sum.splits)

lemma holds_record_apply_op:
  assumes "holds_record s (bucket_of s t) k r" "\<not> overwrites s t k op"
  shows "holds_record (apply_op sz s op) (bucket_of s t) k r"
  using assms
  by (cases op) (auto simp: holds_record_Flush split: sum.splits intro: holds_record_Update)

lemma overwrites_cong:
  "bucket_width s' = bucket_width s \<Longrightarrow> overwrites s' t k op = overwrites s t k op"
  by (cases op) (simp_all add: bucket_of_def)

lemma holds_record_run_ops:
  assumes "holds_record s (bucket_of s t) k r" "list_all (\<lambda>op. \<not> overwrites s t k op) ops"
  shows "holds_record (run_ops sz ops s) (bucket_of s t) k r
     \<and> is_open (run_ops sz ops s) = is_open s
     \<and> bucket_width (run_ops sz ops s) = bucket_width s"
  using assms unfolding run_ops_def
proof (induction ops arbitrary: s)
  case Nil
  then show ?case by simp
next
  case (Cons op ops)
  let ?s1 = "apply_op sz s op"
  have fr: "is_open ?s1 = is_open s" "bucket_width ?s1 = bucket_width s"
    using apply_op_frame[of sz s op] by simp_all
  have h1: "holds_record ?s1 (bucket_of ?s1 t) k r"
    using holds_record_apply_op[of s t k r op sz] Cons.prems
    by (simp add: bucket_of_cong[OF fr(2)])
  have l1: "list_all (\<lambda>op. \<not> overwrites ?s1 t k op) ops"
    using Cons.prems(2) by (simp add: overwrites_cong[OF fr(2)])
  from Cons.IH[OF h1 l1] show ?case by (simp add: fr bucket_of_cong[OF fr(2)])
qed

lemma holds_record_after_Update:
  assumes "is_open s"
  shows "\<exists>s1. Update t k r s = Inr s1 \<and> holds_record s1 (bucket_of s1 t) k r \<and> is_open s1
     \<and> bucket_width s1 = bucket_width s"
  using assms by (simp add: Update_def Let_def holds_record_def entries_of_update bucket_of_def)

text \<open>
  Claim C1. On an open database, \<open>Update(t, k, r)\<close> succeeds, and \<open>Retrieve(t, k)\<close>
  then returns true with the record \<open>r\<close>: at once, after a \<open>Flush\<close> (whether the
  \<open>Flush\<close> succeeded or failed), and after any sequence of \<open>Flush\<close>, \<open>Retrieve\<close> and
  \<open>Update\<close> calls in which no \<open>Update\<close> writes the key \<open>k\<close> in the bucket of \<open>t\<close>
  again.
\<close>

theorem read_your_writes:
  assumes "is_open s" "list_all (\<lambda>op. \<not> overwrites s t k op) ops"
  shows "\<exists>s1. Update t k r s = Inr s1
     \<and> Retrieve t k s1 = Inr (Some r)
     \<and> Retrieve t k (snd (Flush sz s1)) = Inr (Some r)
     \<and> Retrieve t k (run_ops sz ops s1) = Inr (Some r)"
proof -
  from holds_record_after_Update[OF assms(1)] obtain s1 where s1: "Update t k r s = Inr s1"
    "holds_record s1 (bucket_of s1 t) k r" "is_open s1" "bucket_width s1 = bucket_width s"
    by blast
  have 1: "Retrieve t k s1 = Inr (Some r)" using s1 by (intro Retrieve_holds)
  have "holds_record (snd (Flush sz s1)) (bucket_of (snd (Flush sz s1)) t) k r"
    using holds_record_Flush[OF s1(2)] by (simp add: bucket_of_cong[OF Flush_frame(2)])
  then have 2: "Retrieve t k (snd (Flush sz s1)) = Inr (Some r)"
    using s1(3) by (intro Retrieve_holds) (simp_all add: Flush_frame)
  have "list_all (\<lambda>op. \<not> overwrites s1 t k op) ops"
    using assms(2) by (simp add: overwrites_cong[OF s1(4)])
  from holds_record_run_ops[OF s1(2) this, of sz]
  have run: "holds_record (run_ops sz ops s1) (bucket_of s1 t) k r"
    "is_open (run_ops sz ops s1)" "bucket_width (run_ops sz ops s1) = bucket_width s1"
    using s1(3) by simp_all
  have 3: "Retrieve t k (run_ops sz ops s1) = Inr (Some r)"
    using run(1,2) by (intro Retrieve_holds) (simp_all add: bucket_of_cong[OF run(3)])
  from s1(1) 1 2 3 show ?thesis by blast
qed

theorem read_your_writes_witness:
  "is_open example_db
   \<and> list_all (\<lambda>op. \<not> overwrites example_db 100 5 op) example_ops
   \<and> (\<exists>s1. Update 100 5 1 example_db = Inr s1
        \<and> Retrieve 100 5 s1 = Inr (Some 1)
        \<and> Retrieve 100 5 (snd (Flush example_size s1)) = Inr (Some 1)
        \<and> Retrieve 100 5 (run_ops example_size example_ops s1) = Inr (Some 1))"
proof -
  have open_db: "is_open example_db"
    by (simp add: example_db_def)
  have later: "list_all (\<lambda>op. \<not> overwrites example_db 100 5 op) example_ops"
    by (simp add: example_db_def example_ops_def bucket_of_def)
  from read_your_writes[OF open_db later, of 1 example_size] open_db later
  show ?thesis by blast
qed

end
